theory Spec2Isabelle
  imports Main "HOL-Library.Multiset" "HOL-Library.Sublist"
begin

section \<open>Strings and Python's \<open>int()\<close>\<close>

text \<open>
  A Python \<open>str\<close> is modelled as a \<open>string\<close>: the bytes of its UTF-8 encoding. The full
  stop, the ASCII digits, the signs, the underscore and the ASCII white space are single
  bytes that never occur inside a multi-byte sequence, so \<open>split(".")\<close>, the character class
  \<open>[^0-9]\<close>, \<open>==\<close>, \<open>in\<close> and \<open>list.remove\<close> act on the bytes as they act on the code points.
  \<open>int()\<close> reads the code points: it decodes the bytes where the text is not pure ASCII.
\<close>

datatype error = ValueError | HTTPError

definition is_digit :: "char \<Rightarrow> bool" where
  "is_digit c = (c \<in> set ''0123456789'')"

text \<open>
  The white space \<open>int()\<close> strips at both ends of the ASCII text it parses
  (\<open>Py_ISSPACE\<close>): tab, line feed, vertical tab, form feed, carriage return and space.
\<close>

definition py_isspace :: "char \<Rightarrow> bool" where
  "py_isspace c = (c \<in> set [CHR 0x09, CHR 0x0A, CHR 0x0B, CHR 0x0C, CHR 0x0D, CHR 0x20])"

definition py_strip :: "string \<Rightarrow> string" where
  "py_strip s = rev (dropWhile py_isspace (rev (dropWhile py_isspace s)))"

text \<open>
  Before it parses, \<open>int()\<close> turns a \<open>str\<close> that is not pure ASCII into ASCII
  (\<open>_PyUnicode_TransformDecimalAndSpaceToASCII\<close>): a code point below 127 is kept, a
  Unicode white space becomes a space, a Unicode decimal digit becomes the ASCII digit of
  its value, and at any other character the text ends with a question mark. The tables
  are those of Unicode 14.0 (CPython 3.11): the white space above ASCII, and the first
  code point of every block of ten decimal digits above ASCII.
\<close>

definition is_ascii :: "char \<Rightarrow> bool" where
  "is_ascii c = ((of_char c :: nat) < 128)"

definition is_cont :: "char \<Rightarrow> bool" where
  "is_cont c = (128 \<le> (of_char c :: nat) \<and> (of_char c :: nat) < 192)"

definition cont_bits :: "char \<Rightarrow> nat" where
  "cont_bits c = of_char c - 128"

text \<open>The code point of the first character of a UTF-8 text and the number of its bytes.\<close>

definition decode_one :: "string \<Rightarrow> (nat \<times> nat) option" where
  "decode_one s =
     (case s of
        [] \<Rightarrow> None
      | c # cs \<Rightarrow>
          (let b = (of_char c :: nat) in
           if b < 128 then Some (b, 1)
           else if b < 192 then None
           else if b < 224 then
             (case cs of
                c1 # _ \<Rightarrow>
                  if is_cont c1 then Some ((b - 192) * 64 + cont_bits c1, 2) else None
              | _ \<Rightarrow> None)
           else if b < 240 then
             (case cs of
                c1 # c2 # _ \<Rightarrow>
                  if is_cont c1 \<and> is_cont c2
                  then Some ((b - 224) * 4096 + cont_bits c1 * 64 + cont_bits c2, 3) else None
              | _ \<Rightarrow> None)
           else if b < 248 then
             (case cs of
                c1 # c2 # c3 # _ \<Rightarrow>
                  if is_cont c1 \<and> is_cont c2 \<and> is_cont c3
                  then Some ((b - 240) * 262144 + cont_bits c1 * 4096 + cont_bits c2 * 64 +
                             cont_bits c3, 4)
                  else None
              | _ \<Rightarrow> None)
           else None))"

definition unicode_space :: "nat \<Rightarrow> bool" where
  "unicode_space cp =
     (cp \<in> set [0x85, 0xA0, 0x1680, 0x2028, 0x2029, 0x202F, 0x205F, 0x3000] \<or>
      (0x2000 \<le> cp \<and> cp \<le> 0x200A))"

definition digit_blocks :: "nat list" where
  "digit_blocks =
     [0x660, 0x6F0, 0x7C0, 0x966, 0x9E6, 0xA66, 0xAE6, 0xB66,
      0xBE6, 0xC66, 0xCE6, 0xD66, 0xDE6, 0xE50, 0xED0, 0xF20,
      0x1040, 0x1090, 0x17E0, 0x1810, 0x1946, 0x19D0, 0x1A80, 0x1A90,
      0x1B50, 0x1BB0, 0x1C40, 0x1C50, 0xA620, 0xA8D0, 0xA900, 0xA9D0,
      0xA9F0, 0xAA50, 0xABF0, 0xFF10, 0x104A0, 0x10D30, 0x11066, 0x110F0,
      0x11136, 0x111D0, 0x112F0, 0x11450, 0x114D0, 0x11650, 0x116C0, 0x11730,
      0x118E0, 0x11950, 0x11C50, 0x11D50, 0x11DA0, 0x16A60, 0x16AC0, 0x16B50,
      0x1D7CE, 0x1D7D8, 0x1D7E2, 0x1D7EC, 0x1D7F6, 0x1E140, 0x1E2F0, 0x1E950,
      0x1FBF0]"

definition unicode_decimal :: "nat \<Rightarrow> nat option" where
  "unicode_decimal cp =
     (case find (\<lambda>s. s \<le> cp \<and> cp < s + 10) digit_blocks of
        None \<Rightarrow> None
      | Some s \<Rightarrow> Some (cp - s))"

text \<open>The ASCII digit of a value below ten.\<close>

definition ascii_digit :: "nat \<Rightarrow> char" where
  "ascii_digit d = ''0123456789'' ! d"

function to_ascii :: "string \<Rightarrow> string" where
  "to_ascii [] = []"
| "to_ascii (c # cs) =
     (if (of_char c :: nat) < 127 then c # to_ascii cs
      else (case decode_one (c # cs) of
              None \<Rightarrow> ''?''
            | Some (cp, n) \<Rightarrow>
                if unicode_space cp then CHR '' '' # to_ascii (drop (n - 1) cs)
                else (case unicode_decimal cp of
                        None \<Rightarrow> ''?''
                      | Some d \<Rightarrow> ascii_digit d # to_ascii (drop (n - 1) cs))))"
  by pat_completeness auto
termination
  by (relation "measure length") auto

declare to_ascii.simps [simp del]

text \<open>The digit part of an integer literal: digits, with single underscores between digits.\<close>

fun digits_of :: "string \<Rightarrow> string option" where
  "digits_of [] = None"
| "digits_of [c] = (if is_digit c then Some [c] else None)"
| "digits_of (c # d # cs) =
     (if is_digit c
      then (if d = CHR ''_'' then map_option ((#) c) (digits_of cs)
            else map_option ((#) c) (digits_of (d # cs)))
      else None)"

definition digit_val :: "char \<Rightarrow> int" where
  "digit_val c = int (of_char c) - 48"

definition dec_value :: "string \<Rightarrow> int" where
  "dec_value ds = foldl (\<lambda>a c. 10 * a + digit_val c) 0 ds"

text \<open>CPython's default limit on the number of digits of a decimal literal (3.11 and later).\<close>

definition int_max_str_digits :: nat where
  "int_max_str_digits = 4300"

text \<open>
  \<open>int(s)\<close> for a \<open>str\<close>: a text that is not pure ASCII is turned into ASCII first; then
  white space is stripped at both ends, one sign is allowed, and the rest is the digit
  part in base 10. \<open>None\<close> is the \<open>ValueError\<close>.
\<close>

definition py_int :: "string \<Rightarrow> int option" where
  "py_int s =
     (let a = (if list_all is_ascii s then s else to_ascii s);
          t = py_strip a;
          neg = (case t of c # _ \<Rightarrow> c = CHR ''-'' | [] \<Rightarrow> False);
          body = (case t of c # r \<Rightarrow> (if c = CHR ''-'' \<or> c = CHR ''+'' then r else t) | [] \<Rightarrow> t)
      in case digits_of body of
           None \<Rightarrow> None
         | Some ds \<Rightarrow>
             if int_max_str_digits < length ds then None
             else Some (if neg then - dec_value ds else dec_value ds))"

section \<open>The feed and the update payloads\<close>

text \<open>
  One row of the spreadsheet, with the columns \<open>download_stock\<close> documents, all of type
  \<open>str\<close>: \<open>Kod\<close> (the sku), \<open>Nazvanie\<close> (the name), \<open>Kolichestvo\<close> (the quantity token) and
  \<open>Cena\<close> (the price). On a \<open>str\<close>, \<open>str(x)\<close> is \<open>x\<close>.
\<close>

record watch =
  Kod :: string
  Nazvanie :: string
  Kolichestvo :: string
  Cena :: string

text \<open>seller.py: \<open>{"offer_id": ..., "stock": ...}\<close>.\<close>

record stock_update =
  offer_id :: string
  stock :: int

text \<open>seller.py: the price payload; every field is a \<open>str\<close>.\<close>

record price_update =
  auto_action_enabled :: string
  currency_code :: string
  price_offer_id :: string
  old_price :: string
  price :: string

text \<open>market.py: \<open>{"sku", "warehouseId", "items": [{"count", "type", "updatedAt"}]}\<close>.\<close>

record market_item =
  item_count :: int
  item_type :: string
  updatedAt :: string

record market_stock =
  sku :: string
  warehouseId :: string
  items :: "market_item list"

text \<open>market.py: \<open>{"id", "price": {"value", "currencyId"}}\<close>.\<close>

record market_price =
  price_id :: string
  price_value :: int
  currencyId :: string

section \<open>price\_conversion\<close>

text \<open>\<open>s.split(".")\<close> for the one-character separator: the pieces between the separators.\<close>

fun split_char :: "char \<Rightarrow> string \<Rightarrow> string list" where
  "split_char sep [] = [[]]"
| "split_char sep (c # cs) =
     (if c = sep then [] # split_char sep cs
      else (case split_char sep cs of
              p # ps \<Rightarrow> (c # p) # ps
            | [] \<Rightarrow> [[c]]))"

text \<open>\<open>re.sub("[^0-9]", "", s)\<close>: every character outside \<open>0-9\<close> is replaced by nothing.\<close>

definition re_sub_non_digits :: "string \<Rightarrow> string" where
  "re_sub_non_digits s = concat (map (\<lambda>c. if is_digit c then [c] else []) s)"

text \<open>\<open>split\<close> never returns an empty list, so the index 0 exists.\<close>

definition price_conversion :: "string \<Rightarrow> string" where
  "price_conversion p =
     re_sub_non_digits (case split_char CHR ''.'' p of piece # _ \<Rightarrow> piece | [] \<Rightarrow> [])"

section \<open>create\_stocks and create\_prices\<close>

text \<open>
  The stock of a matched row (seller.py lines 216-222, market.py lines 197-203): the two
  literal tokens first, \<open>int()\<close> otherwise.
\<close>

definition stock_of :: "string \<Rightarrow> error + int" where
  "stock_of tok =
     (if tok = ''>10'' then Inr 100
      else if tok = ''1'' then Inr 0
      else (case py_int tok of None \<Rightarrow> Inl ValueError | Some n \<Rightarrow> Inr n))"

text \<open>
  The first loop of \<open>create_stocks\<close>. The list \<open>offer_ids\<close> is mutated in place, so the loop
  takes it and returns it: the second component is the caller's list when the loop ends,
  also when it ends by an exception. \<open>list.remove\<close> deletes the first occurrence.
\<close>

fun stocks_loop ::
  "watch list \<Rightarrow> stock_update list \<Rightarrow> string list \<Rightarrow> (error + stock_update list) \<times> string list"
where
  "stocks_loop [] stocks offer_ids = (Inr stocks, offer_ids)"
| "stocks_loop (w # ws) stocks offer_ids =
     (if Kod w \<in> set offer_ids
      then (case stock_of (Kolichestvo w) of
              Inl e \<Rightarrow> (Inl e, offer_ids)
            | Inr n \<Rightarrow>
                stocks_loop ws (stocks @ [\<lparr>offer_id = Kod w, stock = n\<rparr>])
                  (remove1 (Kod w) offer_ids))
      else stocks_loop ws stocks offer_ids)"

definition create_stocks ::
  "watch list \<Rightarrow> string list \<Rightarrow> (error + stock_update list) \<times> string list"
where
  "create_stocks watch_remnants offer_ids =
     (case stocks_loop watch_remnants [] offer_ids of
        (Inl e, ids) \<Rightarrow> (Inl e, ids)
      | (Inr stocks, ids) \<Rightarrow>
          (Inr (stocks @ map (\<lambda>i. \<lparr>offer_id = i, stock = 0\<rparr>) ids), ids))"

text \<open>seller.py \<open>create_prices\<close>: the price stays a string, nothing can raise.\<close>

fun prices_loop :: "watch list \<Rightarrow> price_update list \<Rightarrow> string list \<Rightarrow> price_update list" where
  "prices_loop [] prices offer_ids = prices"
| "prices_loop (w # ws) prices offer_ids =
     (if Kod w \<in> set offer_ids
      then prices_loop ws
             (prices @ [\<lparr>auto_action_enabled = ''UNKNOWN'', currency_code = ''RUB'',
                         price_offer_id = Kod w, old_price = ''0'',
                         price = price_conversion (Cena w)\<rparr>])
             offer_ids
      else prices_loop ws prices offer_ids)"

definition create_prices :: "watch list \<Rightarrow> string list \<Rightarrow> price_update list" where
  "create_prices watch_remnants offer_ids = prices_loop watch_remnants [] offer_ids"

text \<open>
  market.py \<open>create_stocks\<close>: the same two loops; the payload carries the warehouse and the
  time stamp, which is read once before the loops and is a parameter here.
\<close>

definition market_entry :: "string \<Rightarrow> string \<Rightarrow> string \<Rightarrow> int \<Rightarrow> market_stock" where
  "market_entry warehouse_id date s n =
     \<lparr>sku = s, warehouseId = warehouse_id,
      items = [\<lparr>item_count = n, item_type = ''FIT'', updatedAt = date\<rparr>]\<rparr>"

fun market_stocks_loop ::
  "string \<Rightarrow> string \<Rightarrow> watch list \<Rightarrow> market_stock list \<Rightarrow> string list \<Rightarrow>
   (error + market_stock list) \<times> string list"
where
  "market_stocks_loop warehouse_id date [] stocks offer_ids = (Inr stocks, offer_ids)"
| "market_stocks_loop warehouse_id date (w # ws) stocks offer_ids =
     (if Kod w \<in> set offer_ids
      then (case stock_of (Kolichestvo w) of
              Inl e \<Rightarrow> (Inl e, offer_ids)
            | Inr n \<Rightarrow>
                market_stocks_loop warehouse_id date ws
                  (stocks @ [market_entry warehouse_id date (Kod w) n])
                  (remove1 (Kod w) offer_ids))
      else market_stocks_loop warehouse_id date ws stocks offer_ids)"

definition market_create_stocks ::
  "string \<Rightarrow> watch list \<Rightarrow> string list \<Rightarrow> string \<Rightarrow>
   (error + market_stock list) \<times> string list"
where
  "market_create_stocks date watch_remnants offer_ids warehouse_id =
     (case market_stocks_loop warehouse_id date watch_remnants [] offer_ids of
        (Inl e, ids) \<Rightarrow> (Inl e, ids)
      | (Inr stocks, ids) \<Rightarrow>
          (Inr (stocks @ map (\<lambda>i. market_entry warehouse_id date i 0) ids), ids))"

text \<open>
  market.py \<open>create_prices\<close>: the normalised price goes through \<open>int()\<close>, whose
  \<open>ValueError\<close> leaves the loop and the function.
\<close>

fun market_prices_loop ::
  "watch list \<Rightarrow> market_price list \<Rightarrow> string list \<Rightarrow> error + market_price list"
where
  "market_prices_loop [] prices offer_ids = Inr prices"
| "market_prices_loop (w # ws) prices offer_ids =
     (if Kod w \<in> set offer_ids
      then (case py_int (price_conversion (Cena w)) of
              None \<Rightarrow> Inl ValueError
            | Some v \<Rightarrow>
                market_prices_loop ws
                  (prices @ [\<lparr>price_id = Kod w, price_value = v, currencyId = ''RUR''\<rparr>])
                  offer_ids)
      else market_prices_loop ws prices offer_ids)"

definition market_create_prices ::
  "watch list \<Rightarrow> string list \<Rightarrow> error + market_price list"
where
  "market_create_prices watch_remnants offer_ids = market_prices_loop watch_remnants [] offer_ids"

section \<open>The sync sequence of seller.main\<close>

text \<open>
  seller.py lines 394-397: \<open>create_stocks\<close> and then \<open>create_prices\<close> on the same list object,
  so \<open>create_prices\<close> sees the list as \<open>create_stocks\<close> left it. An exception of
  \<open>create_stocks\<close> leaves the \<open>try\<close> block before any price is built.
\<close>

definition main_reconcile ::
  "watch list \<Rightarrow> string list \<Rightarrow> error + (stock_update list \<times> price_update list)"
where
  "main_reconcile watch_remnants offer_ids =
     (case create_stocks watch_remnants offer_ids of
        (Inl e, ids) \<Rightarrow> Inl e
      | (Inr stocks, ids) \<Rightarrow> Inr (stocks, create_prices watch_remnants ids))"

text \<open>
  seller.py \<open>upload_stocks\<close> and \<open>upload_prices\<close>: each one enumerates the catalog again, so
  \<open>create_prices\<close> gets the full list (the list the enumeration returned is the parameter).
\<close>

definition upload_reconcile ::
  "watch list \<Rightarrow> string list \<Rightarrow> error + (stock_update list \<times> price_update list)"
where
  "upload_reconcile watch_remnants offer_ids =
     (case create_stocks watch_remnants offer_ids of
        (Inl e, ids) \<Rightarrow> Inl e
      | (Inr stocks, ids) \<Rightarrow> Inr (stocks, create_prices watch_remnants offer_ids))"

section \<open>divide and the dispatch loop\<close>

text \<open>\<open>range(i, stop, step)\<close> for a positive step, and the slice \<open>lst[i : i + n]\<close>.\<close>

function py_range :: "nat \<Rightarrow> nat \<Rightarrow> nat \<Rightarrow> nat list" where
  "py_range i stop step =
     (if 0 < step \<and> i < stop then i # py_range (i + step) stop step else [])"
  by pat_completeness auto
termination
  by (relation "measure (\<lambda>(i, stop, step). stop - i)") auto

declare py_range.simps [simp del]

definition slice :: "'a list \<Rightarrow> nat \<Rightarrow> nat \<Rightarrow> 'a list" where
  "slice lst i j = take (j - i) (drop i lst)"

text \<open>
  \<open>divide\<close> is a generator; every caller takes \<open>list(divide(...))\<close>, which is what the model
  returns: the \<open>ValueError\<close> for \<open>n <= 0\<close>, the list of slices otherwise.
\<close>

definition divide :: "'a list \<Rightarrow> int \<Rightarrow> error + 'a list list" where
  "divide lst n =
     (if n \<le> 0 then Inl ValueError
      else Inr (map (\<lambda>i. slice lst i (i + nat n)) (py_range 0 (length lst) (nat n))))"

text \<open>
  The loop \<open>for some in list(divide(updates, n)): update(some)\<close>: one call of the remote
  update per chunk, in order; an exception of a call ends the loop. The result is the
  outcome and the chunks submitted so far.
\<close>

fun submit_all ::
  "('a list \<Rightarrow> error + 'r) \<Rightarrow> 'a list list \<Rightarrow> 'a list list \<Rightarrow> (error + unit) \<times> 'a list list"
where
  "submit_all submit [] calls = (Inr (), calls)"
| "submit_all submit (c # cs) calls =
     (case submit c of
        Inl e \<Rightarrow> (Inl e, calls @ [c])
      | Inr _ \<Rightarrow> submit_all submit cs (calls @ [c]))"

definition dispatch ::
  "'a list \<Rightarrow> int \<Rightarrow> ('a list \<Rightarrow> error + 'r) \<Rightarrow> (error + unit) \<times> 'a list list"
where
  "dispatch updates n submit =
     (case divide updates n of
        Inl e \<Rightarrow> (Inl e, [])
      | Inr chunks \<Rightarrow> submit_all submit chunks [])"

section \<open>get\_offer\_ids\<close>

text \<open>
  The remote catalog is a function from the cursor to the answer of one request:
  \<open>Inl HTTPError\<close> when \<open>raise_for_status\<close> raises, the decoded \<open>result\<close> otherwise.
\<close>

record product =
  product_offer_id :: string

record product_page =
  page_items :: "product list"
  total :: int
  last_id :: string

text \<open>seller.py \<open>get_offer_ids\<close>: the loop stops when \<open>total == len(product_list)\<close>.\<close>

partial_function (option) offer_ids_loop ::
  "(string \<Rightarrow> error + product_page) \<Rightarrow> string \<Rightarrow> product list \<Rightarrow> (error + product list) option"
where
  "offer_ids_loop get_product_list lid product_list =
     (case get_product_list lid of
        Inl e \<Rightarrow> Some (Inl e)
      | Inr some_prod \<Rightarrow>
          (if total some_prod = int (length (product_list @ page_items some_prod))
           then Some (Inr (product_list @ page_items some_prod))
           else offer_ids_loop get_product_list (last_id some_prod)
                  (product_list @ page_items some_prod)))"

definition get_offer_ids ::
  "(string \<Rightarrow> error + product_page) \<Rightarrow> (error + string list) option"
where
  "get_offer_ids get_product_list =
     map_option (map_sum id (map product_offer_id)) (offer_ids_loop get_product_list [] [])"

text \<open>
  market.py: an entry is \<open>{"offer": {"shopSku": ...}}\<close>; \<open>paging.nextPageToken\<close> may be
  absent (\<open>None\<close>) or empty, and both are false for \<open>if not page\<close>. The cursor passed on is
  therefore always a non-empty string.
\<close>

record mapping_entry =
  shopSku :: string

record market_page =
  offerMappingEntries :: "mapping_entry list"
  nextPageToken :: "string option"

partial_function (option) market_ids_loop ::
  "(string \<Rightarrow> error + market_page) \<Rightarrow> string \<Rightarrow> mapping_entry list \<Rightarrow>
   (error + mapping_entry list) option"
where
  "market_ids_loop get_product_list page product_list =
     (case get_product_list page of
        Inl e \<Rightarrow> Some (Inl e)
      | Inr some_prod \<Rightarrow>
          (case nextPageToken some_prod of
             None \<Rightarrow> Some (Inr (product_list @ offerMappingEntries some_prod))
           | Some t \<Rightarrow>
               if t = [] then Some (Inr (product_list @ offerMappingEntries some_prod))
               else market_ids_loop get_product_list t
                      (product_list @ offerMappingEntries some_prod)))"

definition market_get_offer_ids ::
  "(string \<Rightarrow> error + market_page) \<Rightarrow> (error + string list) option"
where
  "market_get_offer_ids get_product_list =
     map_option (map_sum id (map shopSku)) (market_ids_loop get_product_list [] [])"

section \<open>The pagination protocol\<close>

text \<open>
  What a remote catalog does when it follows the protocol of seller.py: it holds a finite
  catalog, of which \<open>delivered\<close> has been sent and \<open>remaining\<close> is still to come; the answer
  to the cursor carries the next items of \<open>remaining\<close> and the size of the whole catalog as
  \<open>total\<close>, and, while items remain after it, the cursor of the next request.
\<close>

inductive paged_total ::
  "(string \<Rightarrow> error + product_page) \<Rightarrow> string \<Rightarrow> product list \<Rightarrow> product list \<Rightarrow> bool"
where
  last_page:
    "get lid = Inr p \<Longrightarrow> page_items p = remaining \<Longrightarrow>
     total p = int (length delivered + length remaining) \<Longrightarrow>
     paged_total get lid delivered remaining"
| next_page:
    "get lid = Inr p \<Longrightarrow> remaining = page_items p @ rest \<Longrightarrow> rest \<noteq> [] \<Longrightarrow>
     total p = int (length delivered + length remaining) \<Longrightarrow>
     paged_total get (last_id p) (delivered @ page_items p) rest \<Longrightarrow>
     paged_total get lid delivered remaining"

text \<open>
  The protocol of market.py: the answer to a cursor carries the next entries and, while
  entries remain after it, a non-empty token for the next request; the last answer has no
  token or an empty one.
\<close>

inductive paged_token ::
  "(string \<Rightarrow> error + market_page) \<Rightarrow> string \<Rightarrow> mapping_entry list \<Rightarrow> bool"
where
  last_token:
    "get page = Inr p \<Longrightarrow> offerMappingEntries p = remaining \<Longrightarrow>
     nextPageToken p = None \<or> nextPageToken p = Some [] \<Longrightarrow>
     paged_token get page remaining"
| next_token:
    "get page = Inr p \<Longrightarrow> remaining = offerMappingEntries p @ rest \<Longrightarrow>
     nextPageToken p = Some t \<Longrightarrow> t \<noteq> [] \<Longrightarrow>
     paged_token get t rest \<Longrightarrow>
     paged_token get page remaining"

section \<open>Reference functions for the statements\<close>

text \<open>
  What the first feed row with sku \<open>i\<close> gives: no such row, the count 0 of the second loop;
  otherwise the outcome of that row's quantity token.
\<close>

definition first_stock :: "watch list \<Rightarrow> string \<Rightarrow> error + int" where
  "first_stock ws i =
     (case find (\<lambda>w. Kod w = i) ws of None \<Rightarrow> Inr 0 | Some w \<Rightarrow> stock_of (Kolichestvo w))"

text \<open>The market.py payload that carries the same sku and count as a seller.py payload.\<close>

definition to_market :: "string \<Rightarrow> string \<Rightarrow> stock_update \<Rightarrow> market_stock" where
  "to_market warehouse_id date u = market_entry warehouse_id date (offer_id u) (stock u)"

text \<open>A quantity token that \<open>int()\<close> reads as a negative number.\<close>

definition negative_token :: "string \<Rightarrow> bool" where
  "negative_token tok = (case py_int tok of None \<Rightarrow> False | Some n \<Rightarrow> n < 0)"

text \<open>
  The matched phase, stated without the loop: the feed row at position \<open>k\<close> is matched when
  fewer earlier rows carry its sku than the enumerated list has occurrences of that sku
  (for a duplicate-free list: its sku is enumerated and no earlier row has it). The matched
  rows are the rows at the matched positions, in feed order.
\<close>

definition matched_at :: "watch list \<Rightarrow> string list \<Rightarrow> nat \<Rightarrow> bool" where
  "matched_at ws ids k =
     (count_list (map Kod (take k ws)) (Kod (ws ! k)) < count_list ids (Kod (ws ! k)))"

definition matched_rows :: "watch list \<Rightarrow> string list \<Rightarrow> watch list" where
  "matched_rows ws ids = map ((!) ws) (filter (matched_at ws ids) [0..<length ws])"

text \<open>The update of a row whose quantity token gives a count.\<close>

definition row_update :: "watch \<Rightarrow> stock_update" where
  "row_update w =
     \<lparr>offer_id = Kod w,
      stock = (case stock_of (Kolichestvo w) of Inr n \<Rightarrow> n | Inl e \<Rightarrow> 0)\<rparr>"

section \<open>The first loop of create\_stocks\<close>

lemma stocks_loop_acc:
  "stocks_loop ws acc ids =
     (map_sum id ((@) acc) (fst (stocks_loop ws [] ids)), snd (stocks_loop ws [] ids))"
proof (induction ws arbitrary: acc ids)
  case Nil
  then show ?case by simp
next
  case (Cons w ws)
  show ?case
  proof (cases "Kod w \<in> set ids")
    case False
    then show ?thesis using Cons.IH [of acc ids] by simp
  next
    case True
    show ?thesis
    proof (cases "stock_of (Kolichestvo w)")
      case (Inl e)
      then show ?thesis using True by simp
    next
      case (Inr n)
      let ?u = "\<lparr>offer_id = Kod w, stock = n\<rparr>"
      let ?r = "stocks_loop ws [] (remove1 (Kod w) ids)"
      have a: "stocks_loop ws (acc @ [?u]) (remove1 (Kod w) ids) =
          (map_sum id ((@) (acc @ [?u])) (fst ?r), snd ?r)"
        by (rule Cons.IH)
      have b: "stocks_loop ws [?u] (remove1 (Kod w) ids) =
          (map_sum id ((@) [?u]) (fst ?r), snd ?r)"
        by (rule Cons.IH)
      show ?thesis using True Inr a b
        by (cases "fst ?r") simp_all
    qed
  qed
qed

lemma stocks_loop_rem_mset:
  "stocks_loop ws acc ids = (Inr st, rem) \<Longrightarrow> mset rem = mset ids - mset (map Kod ws)"
proof (induction ws arbitrary: acc ids)
  case Nil
  then show ?case by simp
next
  case (Cons w ws)
  show ?case
  proof (cases "Kod w \<in> set ids")
    case False
    then have "stocks_loop ws acc ids = (Inr st, rem)" using Cons.prems by simp
    then have "mset rem = mset ids - mset (map Kod ws)" by (rule Cons.IH)
    moreover have "mset ids - {#Kod w#} = mset ids" using False by simp
    ultimately show ?thesis
      by (metis diff_diff_add_mset list.simps(9) mset.simps(2) add_mset_add_single diff_diff_add union_commute)
  next
    case True
    then obtain n where n: "stock_of (Kolichestvo w) = Inr n"
      and r: "stocks_loop ws (acc @ [\<lparr>offer_id = Kod w, stock = n\<rparr>]) (remove1 (Kod w) ids) = (Inr st, rem)"
      using Cons.prems by (auto split: sum.splits)
    have "mset rem = mset (remove1 (Kod w) ids) - mset (map Kod ws)"
      using r by (rule Cons.IH)
    then show ?thesis by simp
  qed
qed

lemma stocks_loop_rem_subseq:
  "stocks_loop ws acc ids = (Inr st, rem) \<Longrightarrow> subseq rem ids"
proof (induction ws arbitrary: acc ids)
  case Nil
  then show ?case by simp
next
  case (Cons w ws)
  show ?case
  proof (cases "Kod w \<in> set ids")
    case False
    then show ?thesis using Cons by simp
  next
    case True
    then obtain n where
      r: "stocks_loop ws (acc @ [\<lparr>offer_id = Kod w, stock = n\<rparr>]) (remove1 (Kod w) ids) = (Inr st, rem)"
      using Cons.prems by (auto split: sum.splits)
    have "subseq rem (remove1 (Kod w) ids)" using r by (rule Cons.IH)
    moreover have "subseq (remove1 (Kod w) ids) ids"
      by (induction ids) auto
    ultimately show ?thesis by (rule subseq_order.trans)
  qed
qed

lemma stocks_loop_conserve:
  "stocks_loop ws acc ids = (Inr st, rem) \<Longrightarrow>
   mset (map offer_id st) + mset rem = mset (map offer_id acc) + mset ids"
proof (induction ws arbitrary: acc ids)
  case Nil
  then show ?case by simp
next
  case (Cons w ws)
  show ?case
  proof (cases "Kod w \<in> set ids")
    case False
    then show ?thesis using Cons by simp
  next
    case True
    then obtain n where
      r: "stocks_loop ws (acc @ [\<lparr>offer_id = Kod w, stock = n\<rparr>]) (remove1 (Kod w) ids) = (Inr st, rem)"
      using Cons.prems by (auto split: sum.splits)
    have "mset (map offer_id st) + mset rem =
        mset (map offer_id (acc @ [\<lparr>offer_id = Kod w, stock = n\<rparr>])) + mset (remove1 (Kod w) ids)"
      using r by (rule Cons.IH)
    then show ?thesis using True by simp
  qed
qed

lemma stocks_loop_rem_distinct:
  "distinct ids \<Longrightarrow> stocks_loop ws acc ids = (Inr st, rem) \<Longrightarrow>
   rem = filter (\<lambda>i. i \<notin> Kod ` set ws) ids"
proof (induction ws arbitrary: acc ids)
  case Nil
  then show ?case by simp
next
  case (Cons w ws)
  show ?case
  proof (cases "Kod w \<in> set ids")
    case False
    then have "rem = filter (\<lambda>i. i \<notin> Kod ` set ws) ids" using Cons by simp
    moreover have "filter (\<lambda>i. i \<notin> Kod ` set ws) ids = filter (\<lambda>i. i \<notin> Kod ` set (w # ws)) ids"
      using False by (intro filter_cong) auto
    ultimately show ?thesis by simp
  next
    case True
    then obtain n where
      r: "stocks_loop ws (acc @ [\<lparr>offer_id = Kod w, stock = n\<rparr>]) (remove1 (Kod w) ids) = (Inr st, rem)"
      using Cons.prems by (auto split: sum.splits)
    have d: "distinct (remove1 (Kod w) ids)" using Cons.prems(1) by simp
    have "rem = filter (\<lambda>i. i \<notin> Kod ` set ws) (remove1 (Kod w) ids)"
      using d r by (rule Cons.IH)
    also have "remove1 (Kod w) ids = filter (\<lambda>i. i \<noteq> Kod w) ids"
      using Cons.prems(1) by (simp add: distinct_remove1_removeAll removeAll_filter_not_eq) metis
    finally show ?thesis by (simp add: conj_commute) 
  qed
qed

lemma first_stock_Cons:
  "first_stock (w # ws) i = (if Kod w = i then stock_of (Kolichestvo w) else first_stock ws i)"
  by (simp add: first_stock_def)

lemma stocks_loop_first:
  "distinct ids \<Longrightarrow> stocks_loop ws acc ids = (Inr st, rem) \<Longrightarrow> u \<in> set st \<Longrightarrow>
   u \<in> set acc \<or> (offer_id u \<in> set ids \<and> offer_id u \<in> Kod ` set ws \<and>
     first_stock ws (offer_id u) = Inr (stock u))"
proof (induction ws arbitrary: acc ids)
  case Nil
  then show ?case by simp
next
  case (Cons w ws)
  show ?case
  proof (cases "Kod w \<in> set ids")
    case False
    then have "stocks_loop ws acc ids = (Inr st, rem)" using Cons.prems by simp
    from Cons.IH [OF Cons.prems(1) this Cons.prems(3)] False show ?thesis
      by (auto simp: first_stock_Cons)
  next
    case True
    then obtain n where n: "stock_of (Kolichestvo w) = Inr n" and
      r: "stocks_loop ws (acc @ [\<lparr>offer_id = Kod w, stock = n\<rparr>]) (remove1 (Kod w) ids) = (Inr st, rem)"
      using Cons.prems by (auto split: sum.splits)
    have d: "distinct (remove1 (Kod w) ids)" using Cons.prems(1) by simp
    from Cons.IH [OF d r Cons.prems(3)] True n Cons.prems(1) show ?thesis
      by (auto simp: first_stock_Cons)
  qed
qed

lemma stocks_loop_fail:
  "distinct ids \<Longrightarrow> fst (stocks_loop ws acc ids) = Inl e \<Longrightarrow>
   \<exists>i\<in>set ids. first_stock ws i = Inl e"
proof (induction ws arbitrary: acc ids)
  case Nil
  then show ?case by simp
next
  case (Cons w ws)
  show ?case
  proof (cases "Kod w \<in> set ids")
    case False
    then have "fst (stocks_loop ws acc ids) = Inl e" using Cons.prems by simp
    from Cons.IH [OF Cons.prems(1) this] obtain i where
      i: "i \<in> set ids" "first_stock ws i = Inl e" by blast
    then have "Kod w \<noteq> i" using False by auto
    then have "first_stock (w # ws) i = Inl e" using i(2) by (simp add: first_stock_Cons)
    then show ?thesis using i(1) by blast
  next
    case True
    show ?thesis
    proof (cases "stock_of (Kolichestvo w)")
      case (Inl e')
      then show ?thesis using True Cons.prems by (auto simp: first_stock_Cons)
    next
      case (Inr n)
      then have r: "fst (stocks_loop ws (acc @ [\<lparr>offer_id = Kod w, stock = n\<rparr>]) (remove1 (Kod w) ids)) = Inl e"
        using True Cons.prems by simp
      have d: "distinct (remove1 (Kod w) ids)" using Cons.prems(1) by simp
      from Cons.IH [OF d r] obtain i where
        i: "i \<in> set (remove1 (Kod w) ids)" "first_stock ws i = Inl e" by blast
      then have "i \<in> set ids" "Kod w \<noteq> i" using Cons.prems(1) by auto
      then have "i \<in> set ids" "first_stock (w # ws) i = Inl e"
        using i(2) by (simp_all add: first_stock_Cons)
      then show ?thesis by blast
    qed
  qed
qed

lemma stocks_loop_order:
  "stocks_loop ws acc ids = (Inr st, rem) \<Longrightarrow>
   \<exists>m ms. st = acc @ m \<and> subseq ms ws \<and>
     list_all2 (\<lambda>u w. offer_id u = Kod w \<and> stock_of (Kolichestvo w) = Inr (stock u)) m ms"
proof (induction ws arbitrary: acc ids)
  case Nil
  then show ?case by simp
next
  case (Cons w ws)
  show ?case
  proof (cases "Kod w \<in> set ids")
    case False
    then have "stocks_loop ws acc ids = (Inr st, rem)" using Cons.prems by simp
    from Cons.IH [OF this] obtain m ms where
      m: "st = acc @ m" "subseq ms ws"
        "list_all2 (\<lambda>u w. offer_id u = Kod w \<and> stock_of (Kolichestvo w) = Inr (stock u)) m ms"
      by blast
    have "subseq ms (w # ws)" using m(2) by (rule list_emb_Cons)
    then show ?thesis using m(1,3) by blast
  next
    case True
    then obtain n where n: "stock_of (Kolichestvo w) = Inr n" and
      r: "stocks_loop ws (acc @ [\<lparr>offer_id = Kod w, stock = n\<rparr>]) (remove1 (Kod w) ids) = (Inr st, rem)"
      using Cons.prems by (auto split: sum.splits)
    from Cons.IH [OF r] obtain m ms where
      m: "st = (acc @ [\<lparr>offer_id = Kod w, stock = n\<rparr>]) @ m" "subseq ms ws"
        "list_all2 (\<lambda>u w. offer_id u = Kod w \<and> stock_of (Kolichestvo w) = Inr (stock u)) m ms"
      by blast
    let ?m = "\<lparr>offer_id = Kod w, stock = n\<rparr> # m"
    have "st = acc @ ?m" using m(1) by simp
    moreover have "subseq (w # ms) (w # ws)" using m(2) by simp
    moreover have "list_all2 (\<lambda>u w. offer_id u = Kod w \<and> stock_of (Kolichestvo w) = Inr (stock u)) ?m (w # ms)"
      using m(3) n by simp
    ultimately show ?thesis by blast
  qed
qed

section \<open>create\_stocks as a whole\<close>

lemma market_stocks_loop_sim:
  "market_stocks_loop wh d ws (map (to_market wh d) acc) ids =
     (map_sum id (map (to_market wh d)) (fst (stocks_loop ws acc ids)),
      snd (stocks_loop ws acc ids))"
proof (induction ws arbitrary: acc ids)
  case Nil
  then show ?case by simp
next
  case (Cons w ws)
  show ?case
  proof (cases "Kod w \<in> set ids")
    case False
    then show ?thesis using Cons.IH [of acc ids] by simp
  next
    case True
    show ?thesis
    proof (cases "stock_of (Kolichestvo w)")
      case (Inl e)
      then show ?thesis using True by simp
    next
      case (Inr n)
      have "market_stocks_loop wh d ws
              (map (to_market wh d) (acc @ [\<lparr>offer_id = Kod w, stock = n\<rparr>])) (remove1 (Kod w) ids) =
            (map_sum id (map (to_market wh d))
               (fst (stocks_loop ws (acc @ [\<lparr>offer_id = Kod w, stock = n\<rparr>]) (remove1 (Kod w) ids))),
             snd (stocks_loop ws (acc @ [\<lparr>offer_id = Kod w, stock = n\<rparr>]) (remove1 (Kod w) ids)))"
        by (rule Cons.IH)
      moreover have "to_market wh d \<lparr>offer_id = Kod w, stock = n\<rparr> = market_entry wh d (Kod w) n"
        by (simp add: to_market_def)
      ultimately show ?thesis using True Inr by (simp add: id_def)
    qed
  qed
qed

lemma market_create_stocks_sim:
  "market_create_stocks d ws ids wh =
     (map_sum id (map (to_market wh d)) (fst (create_stocks ws ids)), snd (create_stocks ws ids))"
proof -
  obtain r rem where r: "stocks_loop ws [] ids = (r, rem)" by (cases "stocks_loop ws [] ids")
  have "market_stocks_loop wh d ws (map (to_market wh d) []) ids = (map_sum id (map (to_market wh d)) r, rem)"
    using market_stocks_loop_sim [of wh d ws "[]" ids] r by simp
  then have m: "market_stocks_loop wh d ws [] ids = (map_sum id (map (to_market wh d)) r, rem)"
    by simp
  show ?thesis
    by (cases r) (simp_all add: market_create_stocks_def create_stocks_def r m to_market_def)
qed

lemma create_stocks_Inr:
  "create_stocks ws ids = (Inr st, rem) \<Longrightarrow>
   \<exists>m. stocks_loop ws [] ids = (Inr m, rem) \<and> st = m @ map (\<lambda>i. \<lparr>offer_id = i, stock = 0\<rparr>) rem"
  by (auto simp: create_stocks_def split: prod.splits sum.splits)

lemma create_stocks_Inl:
  "fst (create_stocks ws ids) = Inl e \<Longrightarrow> fst (stocks_loop ws [] ids) = Inl e"
  by (auto simp: create_stocks_def split: prod.splits sum.splits)

lemma create_stocks_ids:
  assumes "create_stocks ws ids = (Inr st, rem)"
  shows "mset (map offer_id st) = mset ids"
proof -
  from create_stocks_Inr [OF assms] obtain m where
    m: "stocks_loop ws [] ids = (Inr m, rem)" "st = m @ map (\<lambda>i. \<lparr>offer_id = i, stock = 0\<rparr>) rem"
    by blast
  have "mset (map offer_id m) + mset rem = mset ids"
    using stocks_loop_conserve [OF m(1)] by simp
  then show ?thesis using m(2) by (simp add: comp_def)
qed

section \<open>create\_prices\<close>

lemma prices_loop_acc:
  "prices_loop ws acc ids =
     acc @ map (\<lambda>w. \<lparr>auto_action_enabled = ''UNKNOWN'', currency_code = ''RUB'',
                     price_offer_id = Kod w, old_price = ''0'',
                     price = price_conversion (Cena w)\<rparr>)
             (filter (\<lambda>w. Kod w \<in> set ids) ws)"
  by (induction ws arbitrary: acc) simp_all

lemma create_prices_eq:
  "create_prices ws ids =
     map (\<lambda>w. \<lparr>auto_action_enabled = ''UNKNOWN'', currency_code = ''RUB'',
               price_offer_id = Kod w, old_price = ''0'',
               price = price_conversion (Cena w)\<rparr>)
       (filter (\<lambda>w. Kod w \<in> set ids) ws)"
  by (simp add: create_prices_def prices_loop_acc)

lemma create_prices_ids:
  "p \<in> set (create_prices ws ids) \<Longrightarrow> price_offer_id p \<in> set ids \<inter> Kod ` set ws"
  by (auto simp: create_prices_eq)

lemma create_stocks_rem_distinct:
  assumes "distinct ids" and "create_stocks ws ids = (Inr st, rem)"
  shows "rem = filter (\<lambda>i. i \<notin> Kod ` set ws) ids"
proof -
  from create_stocks_Inr [OF assms(2)] obtain m where
    m: "stocks_loop ws [] ids = (Inr m, rem)" by blast
  from stocks_loop_rem_distinct [OF assms(1) m] show ?thesis .
qed

lemma create_prices_after_stocks:
  assumes "distinct ids" and "create_stocks ws ids = (Inr st, rem)"
  shows "create_prices ws rem = []"
proof -
  have "set rem \<inter> Kod ` set ws = {}"
    using create_stocks_rem_distinct [OF assms] by auto
  then have "filter (\<lambda>w. Kod w \<in> set rem) ws = []"
    by (auto simp: filter_empty_conv)
  then show ?thesis by (simp add: create_prices_eq)
qed

section \<open>The offer-id list after create\_stocks\<close>

text \<open>
  C10: \<open>create_stocks\<close> mutates its argument \<open>offer_ids\<close> in place. When it returns, the
  caller's list \<open>rem\<close> is the enumerated list with one occurrence removed for each matched
  feed row, in the original relative order: a subsequence of the enumerated list whose
  multiset is the enumerated ids minus the feed skus, and, for a duplicate-free list,
  exactly the ids that are the sku of no feed row. market.py leaves the same list, and
  \<open>seller.main\<close>, which reuses the list, builds its prices over it.
\<close>

theorem create_stocks_mutates_offer_ids:
  assumes "create_stocks ws ids = (Inr st, rem)"
  shows "subseq rem ids \<and> mset rem = mset ids - mset (map Kod ws) \<and>
         (distinct ids \<longrightarrow> rem = filter (\<lambda>i. i \<notin> Kod ` set ws) ids) \<and>
         snd (market_create_stocks d ws ids wh) = rem \<and>
         main_reconcile ws ids = Inr (st, create_prices ws rem)"
proof -
  from create_stocks_Inr [OF assms] obtain m where
    m: "stocks_loop ws [] ids = (Inr m, rem)" by blast
  have a: "subseq rem ids" using m by (rule stocks_loop_rem_subseq)
  have b: "mset rem = mset ids - mset (map Kod ws)" using m by (rule stocks_loop_rem_mset)
  have c: "distinct ids \<longrightarrow> rem = filter (\<lambda>i. i \<notin> Kod ` set ws) ids"
    using create_stocks_rem_distinct assms by blast
  have d: "snd (market_create_stocks d ws ids wh) = rem"
    using assms by (simp add: market_create_stocks_sim)
  have e: "main_reconcile ws ids = Inr (st, create_prices ws rem)"
    using assms by (simp add: main_reconcile_def)
  from a b c d e show ?thesis by blast
qed

theorem create_stocks_mutates_offer_ids_witness:
  "create_stocks
     [\<lparr>Kod = ''123'', Nazvanie = ''A'', Kolichestvo = ''>10'', Cena = ''1'000.00''\<rparr>,
      \<lparr>Kod = ''999'', Nazvanie = ''B'', Kolichestvo = ''5'', Cena = ''30.00''\<rparr>]
     [''456'', ''123'', ''789''] =
     (Inr [\<lparr>offer_id = ''123'', stock = 100\<rparr>, \<lparr>offer_id = ''456'', stock = 0\<rparr>,
           \<lparr>offer_id = ''789'', stock = 0\<rparr>], [''456'', ''789'']) \<and>
   subseq [''456'', ''789''] [''456'', ''123'', ''789''] \<and>
   mset [''456'', ''789''] = mset [''456'', ''123'', ''789''] - mset [''123'', ''999''] \<and>
   snd (market_create_stocks ''2025-09-15T00:00:00Z''
     [\<lparr>Kod = ''123'', Nazvanie = ''A'', Kolichestvo = ''>10'', Cena = ''1'000.00''\<rparr>,
      \<lparr>Kod = ''999'', Nazvanie = ''B'', Kolichestvo = ''5'', Cena = ''30.00''\<rparr>]
     [''456'', ''123'', ''789''] ''1'') = [''456'', ''789'']"
proof -
  have h: "create_stocks
     [\<lparr>Kod = ''123'', Nazvanie = ''A'', Kolichestvo = ''>10'', Cena = ''1'000.00''\<rparr>,
      \<lparr>Kod = ''999'', Nazvanie = ''B'', Kolichestvo = ''5'', Cena = ''30.00''\<rparr>]
     [''456'', ''123'', ''789''] =
     (Inr [\<lparr>offer_id = ''123'', stock = 100\<rparr>, \<lparr>offer_id = ''456'', stock = 0\<rparr>,
           \<lparr>offer_id = ''789'', stock = 0\<rparr>], [''456'', ''789''])"
    by (simp add: create_stocks_def stock_of_def)
  from create_stocks_mutates_offer_ids [OF h, of "''2025-09-15T00:00:00Z''" "''1''"] h
  show ?thesis by simp
qed

section \<open>The two phases of create\_stocks\<close>

lemma stock_of_error: "stock_of tok = Inl e \<Longrightarrow> e = ValueError"
  by (cases e) (auto simp: stock_of_def split: if_splits option.splits)

lemma stocks_loop_rem_fold:
  "stocks_loop ws acc cur = (Inr st, rem) \<Longrightarrow> rem = fold remove1 (map Kod ws) cur"
proof (induction ws arbitrary: acc cur)
  case Nil
  then show ?case by simp
next
  case (Cons w ws)
  show ?case
  proof (cases "Kod w \<in> set cur")
    case False
    then have "stocks_loop ws acc cur = (Inr st, rem)" using Cons.prems by simp
    then have "rem = fold remove1 (map Kod ws) cur" by (rule Cons.IH)
    then show ?thesis using False by (simp add: remove1_idem)
  next
    case True
    then obtain n where
      r: "stocks_loop ws (acc @ [\<lparr>offer_id = Kod w, stock = n\<rparr>]) (remove1 (Kod w) cur) = (Inr st, rem)"
      using Cons.prems by (auto split: sum.splits)
    have "rem = fold remove1 (map Kod ws) (remove1 (Kod w) cur)" using r by (rule Cons.IH)
    then show ?thesis by simp
  qed
qed

lemma matched_at_here:
  "matched_at (pre @ w # ws) ids (length pre) \<longleftrightarrow>
   count_list (map Kod pre) (Kod w) < count_list ids (Kod w)"
  by (simp add: matched_at_def)

lemma stocks_loop_matched:
  assumes "\<And>s. count_list cur s = count_list ids s - count_list (map Kod pre) s"
  shows "fst (stocks_loop ws acc cur) =
     (if \<exists>k. length pre \<le> k \<and> k < length (pre @ ws) \<and> matched_at (pre @ ws) ids k \<and>
              stock_of (Kolichestvo ((pre @ ws) ! k)) = Inl ValueError
      then Inl ValueError
      else Inr (acc @ map (\<lambda>k. row_update ((pre @ ws) ! k))
                        (filter (matched_at (pre @ ws) ids) [length pre..<length (pre @ ws)])))"
  using assms
proof (induction ws arbitrary: pre acc cur)
  case Nil
  then show ?case by simp
next
  case (Cons w ws)
  let ?all = "pre @ w # ws"
  let ?n = "length pre"
  let ?bad = "\<lambda>k. matched_at ?all ids k \<and> stock_of (Kolichestvo (?all ! k)) = Inl ValueError"
  have all: "(pre @ [w]) @ ws = ?all" by simp
  have here: "?all ! ?n = w" by simp
  have m: "matched_at ?all ids ?n \<longleftrightarrow> Kod w \<in> set cur"
  proof -
    have "Kod w \<in> set cur \<longleftrightarrow> 0 < count_list cur (Kod w)"
      using count_list_0_iff [of cur "Kod w"] by auto
    also have "\<dots> \<longleftrightarrow> count_list (map Kod pre) (Kod w) < count_list ids (Kod w)"
      using Cons.prems [of "Kod w"] by simp
    finally show ?thesis by (simp add: matched_at_here)
  qed
  have upt: "[?n..<length ?all] = ?n # [Suc ?n..<length ?all]"
    by (rule upt_conv_Cons) simp
  have ex: "(\<exists>k. ?n \<le> k \<and> k < length ?all \<and> ?bad k) \<longleftrightarrow>
            ?bad ?n \<or> (\<exists>k. Suc ?n \<le> k \<and> k < length ?all \<and> ?bad k)"
  proof
    assume "\<exists>k. ?n \<le> k \<and> k < length ?all \<and> ?bad k"
    then obtain k where k: "?n \<le> k" "k < length ?all" "?bad k" by blast
    show "?bad ?n \<or> (\<exists>k. Suc ?n \<le> k \<and> k < length ?all \<and> ?bad k)"
    proof (cases "k = ?n")
      case True
      then show ?thesis using k(3) by simp
    next
      case False
      then have "Suc ?n \<le> k" using k(1) by simp
      then show ?thesis using k(2,3) by blast
    qed
  next
    assume "?bad ?n \<or> (\<exists>k. Suc ?n \<le> k \<and> k < length ?all \<and> ?bad k)"
    then show "\<exists>k. ?n \<le> k \<and> k < length ?all \<and> ?bad k"
    proof
      assume "?bad ?n"
      moreover have "?n < length ?all" by simp
      ultimately show ?thesis by blast
    next
      assume "\<exists>k. Suc ?n \<le> k \<and> k < length ?all \<and> ?bad k"
      then obtain k where "Suc ?n \<le> k" "k < length ?all" "?bad k" by blast
      then have "?n \<le> k \<and> k < length ?all \<and> ?bad k" by simp
      then show ?thesis by blast
    qed
  qed
  show ?case
  proof (cases "Kod w \<in> set cur")
    case False
    have inv: "count_list cur s = count_list ids s - count_list (map Kod (pre @ [w])) s" for s
    proof (cases "s = Kod w")
      case True
      have "count_list cur (Kod w) = 0" using False by (simp add: count_list_0_iff)
      then have "count_list ids (Kod w) - count_list (map Kod pre) (Kod w) = 0"
        using Cons.prems [of "Kod w"] by simp
      then show ?thesis using True \<open>count_list cur (Kod w) = 0\<close> by simp
    next
      case F: False
      then show ?thesis using Cons.prems [of s] by simp
    qed
    have ih: "fst (stocks_loop ws acc cur) =
       (if \<exists>k. Suc ?n \<le> k \<and> k < length ?all \<and> ?bad k
        then Inl ValueError
        else Inr (acc @ map (\<lambda>k. row_update (?all ! k))
                          (filter (matched_at ?all ids) [Suc ?n..<length ?all])))"
      using Cons.IH [of cur "pre @ [w]" acc, OF inv] by (simp only: all length_append_singleton)
    have nb: "\<not> ?bad ?n" using False m by simp
    have f: "filter (matched_at ?all ids) [?n..<length ?all] =
             filter (matched_at ?all ids) [Suc ?n..<length ?all]"
      using False m by (subst upt) simp
    have cond: "(\<exists>k. ?n \<le> k \<and> k < length ?all \<and> ?bad k) \<longleftrightarrow>
                (\<exists>k. Suc ?n \<le> k \<and> k < length ?all \<and> ?bad k)"
      using ex nb by blast
    have "fst (stocks_loop (w # ws) acc cur) = fst (stocks_loop ws acc cur)"
      using False by simp
    also note ih
    also have "(if \<exists>k. Suc ?n \<le> k \<and> k < length ?all \<and> ?bad k
        then Inl ValueError
        else Inr (acc @ map (\<lambda>k. row_update (?all ! k))
                          (filter (matched_at ?all ids) [Suc ?n..<length ?all]))) =
       (if \<exists>k. ?n \<le> k \<and> k < length ?all \<and> ?bad k
        then Inl ValueError
        else Inr (acc @ map (\<lambda>k. row_update (?all ! k))
                          (filter (matched_at ?all ids) [?n..<length ?all])))"
      by (simp only: cond f)
    finally show ?thesis .
  next
    case True
    show ?thesis
    proof (cases "stock_of (Kolichestvo w)")
      case (Inl e)
      then have e: "stock_of (Kolichestvo w) = Inl ValueError"
        using stock_of_error by blast
      then have "?bad ?n" using True m here by simp
      then have "\<exists>k. ?n \<le> k \<and> k < length ?all \<and> ?bad k" using ex by blast
      moreover have "fst (stocks_loop (w # ws) acc cur) = Inl ValueError"
        using True e by simp
      ultimately show ?thesis by simp
    next
      case (Inr v)
      let ?u = "\<lparr>offer_id = Kod w, stock = v\<rparr>"
      have inv: "count_list (remove1 (Kod w) cur) s =
                 count_list ids s - count_list (map Kod (pre @ [w])) s" for s
        using Cons.prems [of s] by simp
      have ih: "fst (stocks_loop ws (acc @ [?u]) (remove1 (Kod w) cur)) =
         (if \<exists>k. Suc ?n \<le> k \<and> k < length ?all \<and> ?bad k
          then Inl ValueError
          else Inr ((acc @ [?u]) @ map (\<lambda>k. row_update (?all ! k))
                            (filter (matched_at ?all ids) [Suc ?n..<length ?all])))"
        using Cons.IH [of "remove1 (Kod w) cur" "pre @ [w]" "acc @ [?u]", OF inv]
        by (simp only: all length_append_singleton)
      have nb: "\<not> ?bad ?n" using Inr here by simp
      have ru: "row_update w = ?u" using Inr by (simp add: row_update_def)
      have f: "map (\<lambda>k. row_update (?all ! k)) (filter (matched_at ?all ids) [?n..<length ?all]) =
               ?u # map (\<lambda>k. row_update (?all ! k))
                      (filter (matched_at ?all ids) [Suc ?n..<length ?all])"
        using True m ru by (subst upt) simp
      have cond: "(\<exists>k. ?n \<le> k \<and> k < length ?all \<and> ?bad k) \<longleftrightarrow>
                  (\<exists>k. Suc ?n \<le> k \<and> k < length ?all \<and> ?bad k)"
        using ex nb by blast
      have "fst (stocks_loop (w # ws) acc cur) =
            fst (stocks_loop ws (acc @ [?u]) (remove1 (Kod w) cur))"
        using True Inr by simp
      also note ih
      also have "(if \<exists>k. Suc ?n \<le> k \<and> k < length ?all \<and> ?bad k
          then Inl ValueError
          else Inr ((acc @ [?u]) @ map (\<lambda>k. row_update (?all ! k))
                            (filter (matched_at ?all ids) [Suc ?n..<length ?all]))) =
         (if \<exists>k. ?n \<le> k \<and> k < length ?all \<and> ?bad k
          then Inl ValueError
          else Inr (acc @ map (\<lambda>k. row_update (?all ! k))
                            (filter (matched_at ?all ids) [?n..<length ?all])))"
        by (simp only: cond f append_assoc append_Cons append_Nil)
      finally show ?thesis .
    qed
  qed
qed

lemma matched_rows_bad:
  "(\<exists>k. 0 \<le> k \<and> k < length ws \<and> matched_at ws ids k \<and> P (ws ! k)) \<longleftrightarrow>
   (\<exists>w\<in>set (matched_rows ws ids). P w)"
  by (auto simp: matched_rows_def)

lemma stocks_loop_fst:
  "fst (stocks_loop ws [] ids) =
     (if \<exists>w\<in>set (matched_rows ws ids). stock_of (Kolichestvo w) = Inl ValueError
      then Inl ValueError
      else Inr (map row_update (matched_rows ws ids)))"
proof -
  have inv: "count_list ids s = count_list ids s - count_list (map Kod []) s" for s by simp
  have eq1: "(\<exists>k. length ([] :: watch list) \<le> k \<and> k < length ([] @ ws) \<and>
                 matched_at ([] @ ws) ids k \<and>
                 stock_of (Kolichestvo (([] @ ws) ! k)) = Inl ValueError) \<longleftrightarrow>
             (\<exists>w\<in>set (matched_rows ws ids). stock_of (Kolichestvo w) = Inl ValueError)"
    by (auto simp: matched_rows_def)
  have eq2: "[] @ map (\<lambda>k. row_update (([] @ ws) ! k))
                    (filter (matched_at ([] @ ws) ids)
                       [length ([] :: watch list)..<length ([] @ ws)]) =
             map row_update (matched_rows ws ids)"
    by (simp add: matched_rows_def comp_def)
  show ?thesis
    using stocks_loop_matched [where cur = ids and ids = ids and pre = "[]" and ws = ws
        and acc = "[]", OF inv]
    unfolding eq1 eq2 .
qed

lemma create_stocks_fst:
  "fst (create_stocks ws ids) =
     (if \<exists>w\<in>set (matched_rows ws ids). stock_of (Kolichestvo w) = Inl ValueError
      then Inl ValueError
      else Inr (map row_update (matched_rows ws ids) @
                map (\<lambda>i. \<lparr>offer_id = i, stock = 0\<rparr>) (fold remove1 (map Kod ws) ids)))"
proof -
  obtain r rem where l: "stocks_loop ws [] ids = (r, rem)" by (cases "stocks_loop ws [] ids")
  show ?thesis
  proof (cases r)
    case (Inl e)
    then have "fst (stocks_loop ws [] ids) = Inl e" using l by simp
    then have b: "\<exists>w\<in>set (matched_rows ws ids). stock_of (Kolichestvo w) = Inl ValueError"
      and e: "e = ValueError"
      unfolding stocks_loop_fst by (auto split: if_splits)
    have "fst (create_stocks ws ids) = Inl ValueError"
      using l Inl e by (simp add: create_stocks_def)
    then show ?thesis using b by simp
  next
    case (Inr st)
    then have f: "fst (stocks_loop ws [] ids) = Inr st" using l by simp
    then have nb: "\<not> (\<exists>w\<in>set (matched_rows ws ids). stock_of (Kolichestvo w) = Inl ValueError)"
      and st: "st = map row_update (matched_rows ws ids)"
      unfolding stocks_loop_fst by (auto split: if_splits)
    have rem: "rem = fold remove1 (map Kod ws) ids"
      using l Inr stocks_loop_rem_fold by blast
    have "fst (create_stocks ws ids) =
        Inr (st @ map (\<lambda>i. \<lparr>offer_id = i, stock = 0\<rparr>) rem)"
      using l Inr by (simp add: create_stocks_def)
    then show ?thesis using nb st rem by simp
  qed
qed

lemma create_stocks_snd:
  assumes "\<forall>w\<in>set (matched_rows ws ids). stock_of (Kolichestvo w) \<noteq> Inl ValueError"
  shows "snd (create_stocks ws ids) = fold remove1 (map Kod ws) ids"
proof -
  obtain r rem where l: "stocks_loop ws [] ids = (r, rem)" by (cases "stocks_loop ws [] ids")
  have "fst (stocks_loop ws [] ids) = Inr (map row_update (matched_rows ws ids))"
    unfolding stocks_loop_fst using assms by simp
  then have r: "r = Inr (map row_update (matched_rows ws ids))" using l by simp
  then have "rem = fold remove1 (map Kod ws) ids" using l stocks_loop_rem_fold by blast
  then show ?thesis using l r by (simp add: create_stocks_def)
qed

lemma matched_rows_subseq: "subseq (matched_rows ws ids) ws"
proof -
  have "subseq (filter (matched_at ws ids) [0..<length ws]) [0..<length ws]" by simp
  then have "subseq (map ((!) ws) (filter (matched_at ws ids) [0..<length ws]))
                    (map ((!) ws) [0..<length ws])"
    by (rule subseq_map)
  then show ?thesis by (simp add: matched_rows_def map_nth)
qed

lemma subseq_remove1: "subseq (remove1 x xs) xs"
  by (induction xs) auto

lemma fold_remove1_subseq: "subseq (fold remove1 xs ids) ids"
proof (induction xs arbitrary: ids)
  case Nil
  then show ?case by simp
next
  case (Cons x xs)
  have "subseq (fold remove1 xs (remove1 x ids)) (remove1 x ids)" by (rule Cons.IH)
  then have "subseq (fold remove1 xs (remove1 x ids)) ids"
    using subseq_remove1 by (rule subseq_order.trans)
  then show ?case by simp
qed

lemma fold_remove1_distinct:
  "distinct ids \<Longrightarrow> fold remove1 xs ids = filter (\<lambda>i. i \<notin> set xs) ids"
proof (induction xs arbitrary: ids)
  case Nil
  then show ?case by simp
next
  case (Cons x xs)
  have d: "distinct (remove1 x ids)" using Cons.prems by simp
  have "fold remove1 (x # xs) ids = fold remove1 xs (remove1 x ids)" by simp
  also have "\<dots> = filter (\<lambda>i. i \<notin> set xs) (remove1 x ids)" using d by (rule Cons.IH)
  also have "remove1 x ids = filter (\<lambda>i. i \<noteq> x) ids"
    using Cons.prems by (simp add: distinct_remove1_removeAll removeAll_filter_not_eq) metis
  finally show ?case by (simp add: conj_commute)
qed

text \<open>
  C7 (as amended): when the quantity token of some matched row raises, \<open>create_stocks\<close>
  raises and returns no list. Otherwise the list it returns is exactly the updates of the
  matched rows, in feed order, followed by one update with count 0 for each id still in
  the list after the matched phase, in the order of that list; that list is the enumerated
  list with the first occurrence of each feed sku removed, row after row, a subsequence of
  the enumeration. For a duplicate-free enumeration the remaining ids are the ids of no
  feed row, and no price update belongs to any of them: \<open>create_prices\<close> emits none, over
  the remaining list or over the full one. (With a duplicated id, an occurrence can remain
  while a feed row of that sku gets its price update.)
\<close>

theorem create_stocks_two_phases:
  "fst (create_stocks ws ids) =
     (if \<exists>w\<in>set (matched_rows ws ids). stock_of (Kolichestvo w) = Inl ValueError
      then Inl ValueError
      else Inr (map row_update (matched_rows ws ids) @
                map (\<lambda>i. \<lparr>offer_id = i, stock = 0\<rparr>) (fold remove1 (map Kod ws) ids))) \<and>
   ((\<forall>w\<in>set (matched_rows ws ids). stock_of (Kolichestvo w) \<noteq> Inl ValueError) \<longrightarrow>
      snd (create_stocks ws ids) = fold remove1 (map Kod ws) ids) \<and>
   subseq (matched_rows ws ids) ws \<and>
   subseq (fold remove1 (map Kod ws) ids) ids \<and>
   (distinct ids \<longrightarrow>
      fold remove1 (map Kod ws) ids = filter (\<lambda>i. i \<notin> Kod ` set ws) ids \<and>
      create_prices ws (fold remove1 (map Kod ws) ids) = [] \<and>
      (\<forall>p\<in>set (create_prices ws ids).
         price_offer_id p \<notin> set (fold remove1 (map Kod ws) ids)))"
proof -
  have d: "distinct ids \<longrightarrow>
      fold remove1 (map Kod ws) ids = filter (\<lambda>i. i \<notin> Kod ` set ws) ids \<and>
      create_prices ws (fold remove1 (map Kod ws) ids) = [] \<and>
      (\<forall>p\<in>set (create_prices ws ids).
         price_offer_id p \<notin> set (fold remove1 (map Kod ws) ids))"
  proof
    assume di: "distinct ids"
    have r: "fold remove1 (map Kod ws) ids = filter (\<lambda>i. i \<notin> Kod ` set ws) ids"
      using fold_remove1_distinct [OF di, of "map Kod ws"] by simp
    have "filter (\<lambda>w. Kod w \<in> set (filter (\<lambda>i. i \<notin> Kod ` set ws) ids)) ws = []"
      by (auto simp: filter_empty_conv)
    then have p: "create_prices ws (fold remove1 (map Kod ws) ids) = []"
      unfolding r by (simp add: create_prices_eq)
    have q: "\<forall>p\<in>set (create_prices ws ids).
         price_offer_id p \<notin> set (fold remove1 (map Kod ws) ids)"
      unfolding r using create_prices_ids by fastforce
    from r p q show "fold remove1 (map Kod ws) ids = filter (\<lambda>i. i \<notin> Kod ` set ws) ids \<and>
      create_prices ws (fold remove1 (map Kod ws) ids) = [] \<and>
      (\<forall>p\<in>set (create_prices ws ids).
         price_offer_id p \<notin> set (fold remove1 (map Kod ws) ids))" by blast
  qed
  from create_stocks_fst [of ws ids] create_stocks_snd [of ws ids]
    matched_rows_subseq [of ws ids] fold_remove1_subseq [of "map Kod ws" ids] d
  show ?thesis by blast
qed

theorem create_stocks_two_phases_witness:
  "distinct [''456'', ''123'', ''789''] \<and>
   matched_rows
     [\<lparr>Kod = ''123'', Nazvanie = ''A'', Kolichestvo = ''>10'', Cena = ''1'000.00''\<rparr>,
      \<lparr>Kod = ''999'', Nazvanie = ''B'', Kolichestvo = ''5'', Cena = ''30.00''\<rparr>]
     [''456'', ''123'', ''789''] =
     [\<lparr>Kod = ''123'', Nazvanie = ''A'', Kolichestvo = ''>10'', Cena = ''1'000.00''\<rparr>] \<and>
   create_stocks
     [\<lparr>Kod = ''123'', Nazvanie = ''A'', Kolichestvo = ''>10'', Cena = ''1'000.00''\<rparr>,
      \<lparr>Kod = ''999'', Nazvanie = ''B'', Kolichestvo = ''5'', Cena = ''30.00''\<rparr>]
     [''456'', ''123'', ''789''] =
     (Inr [\<lparr>offer_id = ''123'', stock = 100\<rparr>, \<lparr>offer_id = ''456'', stock = 0\<rparr>,
           \<lparr>offer_id = ''789'', stock = 0\<rparr>], [''456'', ''789'']) \<and>
   create_prices
     [\<lparr>Kod = ''123'', Nazvanie = ''A'', Kolichestvo = ''>10'', Cena = ''1'000.00''\<rparr>,
      \<lparr>Kod = ''999'', Nazvanie = ''B'', Kolichestvo = ''5'', Cena = ''30.00''\<rparr>]
     [''456'', ''789''] = []"
proof -
  let ?W = "[\<lparr>Kod = ''123'', Nazvanie = ''A'', Kolichestvo = ''>10'', Cena = ''1'000.00''\<rparr>,
      \<lparr>Kod = ''999'', Nazvanie = ''B'', Kolichestvo = ''5'', Cena = ''30.00''\<rparr>]"
  let ?I = "[''456'', ''123'', ''789'']"
  have d: "distinct ?I" by simp
  have mr: "matched_rows ?W ?I =
      [\<lparr>Kod = ''123'', Nazvanie = ''A'', Kolichestvo = ''>10'', Cena = ''1'000.00''\<rparr>]"
    by code_simp
  have so: "stock_of ''>10'' = Inr 100" by (simp add: stock_of_def)
  have fo: "fold remove1 (map Kod ?W) ?I = [''456'', ''789'']" by simp
  have ru: "row_update \<lparr>Kod = ''123'', Nazvanie = ''A'', Kolichestvo = ''>10'', Cena = ''1'000.00''\<rparr> =
      \<lparr>offer_id = ''123'', stock = 100\<rparr>"
    by (simp add: row_update_def so)
  from create_stocks_two_phases [of ?W ?I]
  have "fst (create_stocks ?W ?I) =
          Inr [\<lparr>offer_id = ''123'', stock = 100\<rparr>, \<lparr>offer_id = ''456'', stock = 0\<rparr>,
               \<lparr>offer_id = ''789'', stock = 0\<rparr>] \<and>
        snd (create_stocks ?W ?I) = [''456'', ''789''] \<and>
        create_prices ?W [''456'', ''789''] = []"
    unfolding mr fo using d so ru by simp
  then have "create_stocks ?W ?I =
     (Inr [\<lparr>offer_id = ''123'', stock = 100\<rparr>, \<lparr>offer_id = ''456'', stock = 0\<rparr>,
           \<lparr>offer_id = ''789'', stock = 0\<rparr>], [''456'', ''789'']) \<and>
        create_prices ?W [''456'', ''789''] = []"
    by (metis prod.collapse)
  with d mr show ?thesis by blast
qed

theorem create_stocks_two_phases_counterexample:
  "create_stocks
     [\<lparr>Kod = ''123'', Nazvanie = ''A'', Kolichestvo = ''abc'', Cena = ''1'000.00''\<rparr>]
     [''123''] = (Inl ValueError, [''123'']) \<and>
   create_stocks
     [\<lparr>Kod = ''77'', Nazvanie = ''A'', Kolichestvo = ''5'', Cena = ''10.00''\<rparr>]
     [''77'', ''77''] =
     (Inr [\<lparr>offer_id = ''77'', stock = 5\<rparr>, \<lparr>offer_id = ''77'', stock = 0\<rparr>], [''77'']) \<and>
   create_prices
     [\<lparr>Kod = ''77'', Nazvanie = ''A'', Kolichestvo = ''5'', Cena = ''10.00''\<rparr>]
     [''77'', ''77''] =
     [\<lparr>auto_action_enabled = ''UNKNOWN'', currency_code = ''RUB'', price_offer_id = ''77'',
       old_price = ''0'', price = ''10''\<rparr>] \<and>
   create_prices
     [\<lparr>Kod = ''77'', Nazvanie = ''A'', Kolichestvo = ''5'', Cena = ''10.00''\<rparr>]
     [''77''] =
     [\<lparr>auto_action_enabled = ''UNKNOWN'', currency_code = ''RUB'', price_offer_id = ''77'',
       old_price = ''0'', price = ''10''\<rparr>]"
  by code_simp

section \<open>One update per offer id, first feed row wins\<close>

lemma first_stock_absent: "i \<notin> Kod ` set ws \<Longrightarrow> first_stock ws i = Inr 0"
  by (induction ws) (auto simp: first_stock_Cons, simp add: first_stock_def)

lemma create_stocks_first:
  assumes "distinct ids" and "create_stocks ws ids = (Inr st, rem)" and "u \<in> set st"
  shows "first_stock ws (offer_id u) = Inr (stock u)"
proof -
  from create_stocks_Inr [OF assms(2)] obtain m where
    m: "stocks_loop ws [] ids = (Inr m, rem)"
       "st = m @ map (\<lambda>i. \<lparr>offer_id = i, stock = 0\<rparr>) rem" by blast
  from assms(3) m(2) consider "u \<in> set m" | "u \<in> set (map (\<lambda>i. \<lparr>offer_id = i, stock = 0\<rparr>) rem)"
    by auto
  then show ?thesis
  proof cases
    case 1
    from stocks_loop_first [OF assms(1) m(1) 1] show ?thesis by simp
  next
    case 2
    then obtain i where i: "i \<in> set rem" "u = \<lparr>offer_id = i, stock = 0\<rparr>" by auto
    have "rem = filter (\<lambda>i. i \<notin> Kod ` set ws) ids"
      using assms(1) m(1) by (rule stocks_loop_rem_distinct)
    then have "i \<notin> Kod ` set ws" using i(1) by auto
    then show ?thesis using i(2) by (simp add: first_stock_absent)
  qed
qed

lemma create_stocks_fail:
  assumes "distinct ids" and "fst (create_stocks ws ids) = Inl e"
  shows "\<exists>i\<in>set ids. first_stock ws i = Inl e"
  using stocks_loop_fail [OF assms(1) create_stocks_Inl [OF assms(2)]] .

lemma to_market_sku: "sku (to_market wh d u) = offer_id u"
  by (simp add: to_market_def market_entry_def)

lemma to_market_items: "map item_count (items (to_market wh d u)) = [stock u]"
  by (simp add: to_market_def market_entry_def)

text \<open>
  C3 (as amended): for a duplicate-free enumerated list, \<open>create_stocks\<close> either raises the
  \<open>ValueError\<close> of \<open>int()\<close> (then the first feed row of some enumerated id has an unparseable
  quantity token, and no list is produced), or returns a list with exactly one update per
  enumerated id, no duplicates and none missing, in which the count of every id is the one
  of the first feed row with that sku (a later row with the same sku is ignored) and 0 for
  an id no feed row has. The same holds for market.py.
\<close>

theorem create_stocks_one_per_id:
  assumes "distinct ids"
  shows "(case create_stocks ws ids of
            (Inl e, rem) \<Rightarrow> \<exists>i\<in>set ids. first_stock ws i = Inl e
          | (Inr st, rem) \<Rightarrow>
              mset (map offer_id st) = mset ids \<and> distinct (map offer_id st) \<and>
              (\<forall>u\<in>set st. first_stock ws (offer_id u) = Inr (stock u))) \<and>
         (case market_create_stocks d ws ids wh of
            (Inl e, rem) \<Rightarrow> \<exists>i\<in>set ids. first_stock ws i = Inl e
          | (Inr mst, rem) \<Rightarrow>
              mset (map sku mst) = mset ids \<and> distinct (map sku mst) \<and>
              (\<forall>m\<in>set mst. map (\<lambda>it. Inr (item_count it)) (items m) = [first_stock ws (sku m)]))"
proof -
  obtain r rem where c: "create_stocks ws ids = (r, rem)" by (cases "create_stocks ws ids")
  show ?thesis
  proof (cases r)
    case (Inl e)
    then have "fst (create_stocks ws ids) = Inl e" using c by simp
    from create_stocks_fail [OF assms this] show ?thesis
      using c Inl by (simp add: market_create_stocks_sim)
  next
    case (Inr st)
    then have s: "create_stocks ws ids = (Inr st, rem)" using c by simp
    have a: "mset (map offer_id st) = mset ids" using s by (rule create_stocks_ids)
    have b: "distinct (map offer_id st)"
      using a assms by (metis mset_eq_imp_distinct_iff)
    have f: "\<forall>u\<in>set st. first_stock ws (offer_id u) = Inr (stock u)"
      using create_stocks_first [OF assms s] by blast
    have ms: "map sku (map (to_market wh d) st) = map offer_id st"
      by (simp add: to_market_sku comp_def)
    have mf: "\<forall>m\<in>set (map (to_market wh d) st).
        map (\<lambda>it. Inr (item_count it)) (items m) = [first_stock ws (sku m)]"
    proof
      fix m assume "m \<in> set (map (to_market wh d) st)"
      then obtain u where u: "u \<in> set st" "m = to_market wh d u" by auto
      have "map (\<lambda>it. Inr (item_count it)) (items m) = map Inr (map item_count (items m))"
        by (simp add: comp_def)
      also have "\<dots> = [Inr (stock u)]" using u(2) by (simp add: to_market_items)
      also have "\<dots> = [first_stock ws (sku m)]" using f u by (simp add: to_market_sku)
      finally show "map (\<lambda>it. Inr (item_count it)) (items m) = [first_stock ws (sku m)]" .
    qed
    have mc: "market_create_stocks d ws ids wh = (Inr (map (to_market wh d) st), rem)"
      using s by (simp add: market_create_stocks_sim)
    have ma: "mset (map sku (map (to_market wh d) st)) = mset ids" unfolding ms by (rule a)
    have mb: "distinct (map sku (map (to_market wh d) st))" unfolding ms by (rule b)
    have "(mset (map offer_id st) = mset ids \<and> distinct (map offer_id st) \<and>
              (\<forall>u\<in>set st. first_stock ws (offer_id u) = Inr (stock u))) \<and>
          (mset (map sku (map (to_market wh d) st)) = mset ids \<and>
             distinct (map sku (map (to_market wh d) st)) \<and>
              (\<forall>m\<in>set (map (to_market wh d) st).
                 map (\<lambda>it. Inr (item_count it)) (items m) = [first_stock ws (sku m)]))"
      using a b f ma mb mf by blast
    then show ?thesis unfolding s mc prod.case sum.case .
  qed
qed

theorem create_stocks_one_per_id_witness:
  "distinct [''123'', ''456''] \<and>
   create_stocks
     [\<lparr>Kod = ''123'', Nazvanie = ''A'', Kolichestvo = ''>10'', Cena = ''1'000.00''\<rparr>,
      \<lparr>Kod = ''123'', Nazvanie = ''A'', Kolichestvo = ''7'', Cena = ''2'000.00''\<rparr>,
      \<lparr>Kod = ''999'', Nazvanie = ''B'', Kolichestvo = ''5'', Cena = ''30.00''\<rparr>]
     [''123'', ''456''] =
     (Inr [\<lparr>offer_id = ''123'', stock = 100\<rparr>, \<lparr>offer_id = ''456'', stock = 0\<rparr>], [''456'']) \<and>
   mset (map offer_id [\<lparr>offer_id = ''123'', stock = 100\<rparr>, \<lparr>offer_id = ''456'', stock = 0\<rparr>]) =
     mset [''123'', ''456''] \<and>
   first_stock
     [\<lparr>Kod = ''123'', Nazvanie = ''A'', Kolichestvo = ''>10'', Cena = ''1'000.00''\<rparr>,
      \<lparr>Kod = ''123'', Nazvanie = ''A'', Kolichestvo = ''7'', Cena = ''2'000.00''\<rparr>,
      \<lparr>Kod = ''999'', Nazvanie = ''B'', Kolichestvo = ''5'', Cena = ''30.00''\<rparr>]
     ''123'' = Inr 100 \<and>
   first_stock
     [\<lparr>Kod = ''123'', Nazvanie = ''A'', Kolichestvo = ''>10'', Cena = ''1'000.00''\<rparr>,
      \<lparr>Kod = ''123'', Nazvanie = ''A'', Kolichestvo = ''7'', Cena = ''2'000.00''\<rparr>,
      \<lparr>Kod = ''999'', Nazvanie = ''B'', Kolichestvo = ''5'', Cena = ''30.00''\<rparr>]
     ''456'' = Inr 0"
proof -
  have d: "distinct [''123'', ''456'']" by simp
  have h: "create_stocks
     [\<lparr>Kod = ''123'', Nazvanie = ''A'', Kolichestvo = ''>10'', Cena = ''1'000.00''\<rparr>,
      \<lparr>Kod = ''123'', Nazvanie = ''A'', Kolichestvo = ''7'', Cena = ''2'000.00''\<rparr>,
      \<lparr>Kod = ''999'', Nazvanie = ''B'', Kolichestvo = ''5'', Cena = ''30.00''\<rparr>]
     [''123'', ''456''] =
     (Inr [\<lparr>offer_id = ''123'', stock = 100\<rparr>, \<lparr>offer_id = ''456'', stock = 0\<rparr>], [''456''])"
    by (simp add: create_stocks_def stock_of_def)
  from create_stocks_one_per_id [OF d, of
     "[\<lparr>Kod = ''123'', Nazvanie = ''A'', Kolichestvo = ''>10'', Cena = ''1'000.00''\<rparr>,
      \<lparr>Kod = ''123'', Nazvanie = ''A'', Kolichestvo = ''7'', Cena = ''2'000.00''\<rparr>,
      \<lparr>Kod = ''999'', Nazvanie = ''B'', Kolichestvo = ''5'', Cena = ''30.00''\<rparr>]"]
  have "mset (map offer_id [\<lparr>offer_id = ''123'', stock = 100\<rparr>, \<lparr>offer_id = ''456'', stock = 0\<rparr>]) =
     mset [''123'', ''456''] \<and>
   first_stock
     [\<lparr>Kod = ''123'', Nazvanie = ''A'', Kolichestvo = ''>10'', Cena = ''1'000.00''\<rparr>,
      \<lparr>Kod = ''123'', Nazvanie = ''A'', Kolichestvo = ''7'', Cena = ''2'000.00''\<rparr>,
      \<lparr>Kod = ''999'', Nazvanie = ''B'', Kolichestvo = ''5'', Cena = ''30.00''\<rparr>]
     ''123'' = Inr 100 \<and>
   first_stock
     [\<lparr>Kod = ''123'', Nazvanie = ''A'', Kolichestvo = ''>10'', Cena = ''1'000.00''\<rparr>,
      \<lparr>Kod = ''123'', Nazvanie = ''A'', Kolichestvo = ''7'', Cena = ''2'000.00''\<rparr>,
      \<lparr>Kod = ''999'', Nazvanie = ''B'', Kolichestvo = ''5'', Cena = ''30.00''\<rparr>]
     ''456'' = Inr 0"
    unfolding h by simp
  with d h show ?thesis by blast
qed

theorem create_stocks_one_per_id_counterexample:
  "distinct [''123''] \<and>
   create_stocks
     [\<lparr>Kod = ''123'', Nazvanie = ''A'', Kolichestvo = ''abc'', Cena = ''1'000.00''\<rparr>]
     [''123''] = (Inl ValueError, [''123''])"
  by code_simp

lemma stock_of_nonneg:
  "stock_of tok = Inr n \<Longrightarrow> \<not> negative_token tok \<Longrightarrow> 0 \<le> n"
proof -
  assume a: "stock_of tok = Inr n" and b: "\<not> negative_token tok"
  show "0 \<le> n"
  proof (cases "tok = ''>10'' \<or> tok = ''1''")
    case True
    then show ?thesis using a by (auto simp: stock_of_def)
  next
    case False
    then have "py_int tok = Some n" using a by (simp add: stock_of_def split: option.splits)
    then show ?thesis using b by (simp add: negative_token_def)
  qed
qed

text \<open>
  C4 (as amended): every update of the list \<open>create_stocks\<close> returns has a non-negative
  count, provided no feed row with an enumerated sku has a quantity token that \<open>int()\<close>
  reads as a negative number. (Such a token is passed through: \<open>"-5"\<close> gives the count -5.)
\<close>

theorem create_stocks_count_nonneg:
  assumes "create_stocks ws ids = (Inr st, rem)"
    and "\<forall>w\<in>set ws. Kod w \<in> set ids \<longrightarrow> \<not> negative_token (Kolichestvo w)"
  shows "\<forall>u\<in>set st. 0 \<le> stock u"
proof
  fix u assume u: "u \<in> set st"
  from create_stocks_Inr [OF assms(1)] obtain m where
    m: "stocks_loop ws [] ids = (Inr m, rem)"
       "st = m @ map (\<lambda>i. \<lparr>offer_id = i, stock = 0\<rparr>) rem" by blast
  from u m(2) consider "u \<in> set m" | "u \<in> set (map (\<lambda>i. \<lparr>offer_id = i, stock = 0\<rparr>) rem)"
    by auto
  then show "0 \<le> stock u"
  proof cases
    case 1
    from stocks_loop_order [OF m(1)] obtain ms where
      ms: "subseq ms ws"
          "list_all2 (\<lambda>u w. offer_id u = Kod w \<and> stock_of (Kolichestvo w) = Inr (stock u)) m ms"
      by auto
    from 1 obtain k where k: "k < length m" "m ! k = u" by (auto simp: in_set_conv_nth)
    have len: "length m = length ms" using ms(2) by (rule list_all2_lengthD)
    have p: "offer_id u = Kod (ms ! k) \<and> stock_of (Kolichestvo (ms ! k)) = Inr (stock u)"
      using list_all2_nthD [OF ms(2) k(1)] k(2) by simp
    have "ms ! k \<in> set ms" using k(1) len by simp
    then have w: "ms ! k \<in> set ws" using list_emb_set [OF ms(1)] by blast
    have "mset (map offer_id st) = mset ids" using assms(1) by (rule create_stocks_ids)
    then have "set (map offer_id st) = set ids" by (rule mset_eq_setD)
    then have "offer_id u \<in> set ids" using u by auto
    then have "Kod (ms ! k) \<in> set ids" using p by simp
    then have "\<not> negative_token (Kolichestvo (ms ! k))" using assms(2) w by blast
    then show ?thesis using stock_of_nonneg [of "Kolichestvo (ms ! k)" "stock u"] p by simp
  next
    case 2
    then show ?thesis by auto
  qed
qed

theorem create_stocks_count_nonneg_witness:
  "create_stocks
     [\<lparr>Kod = ''123'', Nazvanie = ''A'', Kolichestvo = ''>10'', Cena = ''1'000.00''\<rparr>,
      \<lparr>Kod = ''999'', Nazvanie = ''B'', Kolichestvo = ''-5'', Cena = ''30.00''\<rparr>]
     [''123'', ''456''] =
     (Inr [\<lparr>offer_id = ''123'', stock = 100\<rparr>, \<lparr>offer_id = ''456'', stock = 0\<rparr>], [''456'']) \<and>
   \<not> negative_token ''>10'' \<and> ''999'' \<notin> set [''123'', ''456''] \<and>
   0 \<le> stock \<lparr>offer_id = ''123'', stock = 100\<rparr> \<and>
   0 \<le> stock \<lparr>offer_id = ''456'', stock = 0\<rparr>"
proof -
  have h: "create_stocks
     [\<lparr>Kod = ''123'', Nazvanie = ''A'', Kolichestvo = ''>10'', Cena = ''1'000.00''\<rparr>,
      \<lparr>Kod = ''999'', Nazvanie = ''B'', Kolichestvo = ''-5'', Cena = ''30.00''\<rparr>]
     [''123'', ''456''] =
     (Inr [\<lparr>offer_id = ''123'', stock = 100\<rparr>, \<lparr>offer_id = ''456'', stock = 0\<rparr>], [''456''])"
    by (simp add: create_stocks_def stock_of_def)
  have n: "\<not> negative_token ''>10''" by code_simp
  have m: "''999'' \<notin> set [''123'', ''456'']" by simp
  have g: "\<forall>w\<in>set [\<lparr>Kod = ''123'', Nazvanie = ''A'', Kolichestvo = ''>10'', Cena = ''1'000.00''\<rparr>,
      \<lparr>Kod = ''999'', Nazvanie = ''B'', Kolichestvo = ''-5'', Cena = ''30.00''\<rparr>].
      Kod w \<in> set [''123'', ''456''] \<longrightarrow> \<not> negative_token (Kolichestvo w)"
    using n by simp
  from create_stocks_count_nonneg [OF h g]
  have "0 \<le> stock \<lparr>offer_id = ''123'', stock = 100\<rparr> \<and> 0 \<le> stock \<lparr>offer_id = ''456'', stock = 0\<rparr>"
    by simp
  with h n m show ?thesis by blast
qed

theorem create_stocks_count_nonneg_counterexample:
  "create_stocks
     [\<lparr>Kod = ''123'', Nazvanie = ''A'', Kolichestvo = ''-5'', Cena = ''1'000.00''\<rparr>]
     [''123''] = (Inr [\<lparr>offer_id = ''123'', stock = - 5\<rparr>], []) \<and>
   stock \<lparr>offer_id = ''123'', stock = - 5\<rparr> < 0"
  by code_simp

section \<open>The price normalisation\<close>

lemma split_char_nonempty: "split_char sep s \<noteq> []"
  by (induction s) (auto split: list.splits)

lemma split_char_first:
  "(case split_char sep s of piece # _ \<Rightarrow> piece | [] \<Rightarrow> []) = takeWhile (\<lambda>c. c \<noteq> sep) s"
  by (induction s) (auto split: list.splits)

lemma re_sub_non_digits_filter: "re_sub_non_digits s = filter is_digit s"
  by (induction s) (simp_all add: re_sub_non_digits_def)

text \<open>
  C6: \<open>price_conversion\<close> returns the part of its input before the first full stop with every
  character that is not an ASCII digit removed, so its output consists of ASCII digits
  only; the price \<open>5'990.00\<close> followed by the currency word and a full stop gives \<open>5990\<close>,
  and the empty string gives the empty string.
\<close>

theorem price_conversion_digits:
  "price_conversion p = filter is_digit (takeWhile (\<lambda>c. c \<noteq> CHR ''.'') p) \<and>
   set (price_conversion p) \<subseteq> set ''0123456789'' \<and>
   price_conversion
     (''5'990.00 '' @ [CHR 0xD1, CHR 0x80, CHR 0xD1, CHR 0x83, CHR 0xD0, CHR 0xB1] @ ''.'') = ''5990'' \<and>
   price_conversion '''' = ''''"
proof -
  have a: "price_conversion p = filter is_digit (takeWhile (\<lambda>c. c \<noteq> CHR ''.'') p)" for p
    by (simp add: price_conversion_def split_char_first re_sub_non_digits_filter)
  have b: "set (price_conversion p) \<subseteq> set ''0123456789''"
    unfolding a by (auto simp: is_digit_def)
  have c: "price_conversion
     (''5'990.00 '' @ [CHR 0xD1, CHR 0x80, CHR 0xD1, CHR 0x83, CHR 0xD0, CHR 0xB1] @ ''.'') = ''5990''"
    unfolding a by (simp add: is_digit_def)
  have d: "price_conversion '''' = ''''" unfolding a by simp
  from a b c d show ?thesis by blast
qed

theorem price_conversion_digits_witness:
  "price_conversion ''1'000.50 RUB'' = filter is_digit (takeWhile (\<lambda>c. c \<noteq> CHR ''.'') ''1'000.50 RUB'') \<and>
   set (price_conversion ''1'000.50 RUB'') \<subseteq> set ''0123456789'' \<and>
   price_conversion ''1'000.50 RUB'' = ''1000''"
proof -
  have "price_conversion ''1'000.50 RUB'' = ''1000''" by code_simp
  with price_conversion_digits [of "''1'000.50 RUB''"] show ?thesis by blast
qed

section \<open>The quantity rules\<close>

lemma is_digit_facts:
  assumes "is_digit c"
  shows "is_ascii c" "\<not> py_isspace c" "c \<noteq> CHR ''-''" "c \<noteq> CHR ''+''" "c \<noteq> CHR ''_''"
    "0 \<le> digit_val c"
  using assms by (auto simp: is_digit_def is_ascii_def py_isspace_def digit_val_def)

lemma digits_of_digits: "list_all is_digit ds \<Longrightarrow> ds \<noteq> [] \<Longrightarrow> digits_of ds = Some ds"
proof (induction ds rule: digits_of.induct)
  case 1
  then show ?case by simp
next
  case (2 c)
  then show ?case by simp
next
  case (3 c d cs)
  then have "is_digit c" "is_digit d" "list_all is_digit (d # cs)" by simp_all
  moreover have "d \<noteq> CHR ''_''" using \<open>is_digit d\<close> by (rule is_digit_facts)
  ultimately show ?case using "3.IH"(2) by simp
qed

lemma py_strip_id:
  assumes "s \<noteq> []" "\<not> py_isspace (hd s)" "\<not> py_isspace (last s)"
  shows "py_strip s = s"
proof -
  have a: "dropWhile py_isspace s = s" using assms(1,2) by (cases s) simp_all
  have "rev s \<noteq> []" "\<not> py_isspace (hd (rev s))" using assms(1,3) by (simp_all add: hd_rev)
  then have "dropWhile py_isspace (rev s) = rev s" by (cases "rev s") simp_all
  then show ?thesis by (simp add: py_strip_def a)
qed

lemma dec_value_nonneg: "list_all is_digit ds \<Longrightarrow> 0 \<le> dec_value ds"
proof -
  have "list_all is_digit ds \<Longrightarrow> 0 \<le> a \<Longrightarrow> 0 \<le> foldl (\<lambda>a c. 10 * a + digit_val c) a ds" for a
  proof (induction ds arbitrary: a)
    case Nil
    then show ?case by simp
  next
    case (Cons c ds)
    then have "0 \<le> digit_val c" by (simp add: is_digit_facts)
    then have "0 \<le> 10 * a + digit_val c" using Cons.prems(2) by simp
    then show ?case using Cons by simp
  qed
  then show "list_all is_digit ds \<Longrightarrow> 0 \<le> dec_value ds" by (simp add: dec_value_def)
qed

lemma py_int_digits:
  assumes "list_all is_digit ds" "ds \<noteq> []" "length ds \<le> int_max_str_digits"
  shows "py_int ds = Some (dec_value ds)" "py_int (CHR ''-'' # ds) = Some (- dec_value ds)"
proof -
  have asc: "list_all is_ascii ds" using assms(1) by (induction ds) (simp_all add: is_digit_facts)
  have hd: "is_digit (hd ds)" and la: "is_digit (last ds)"
    using assms(1,2) by (auto simp: list_all_iff)
  have st: "py_strip ds = ds"
    using assms(2) hd la by (intro py_strip_id) (simp_all add: is_digit_facts)
  have dg: "digits_of ds = Some ds" using assms(1,2) by (rule digits_of_digits)
  obtain c r where cr: "ds = c # r" using assms(2) by (cases ds) auto
  have c: "c \<noteq> CHR ''-''" "c \<noteq> CHR ''+''" using hd cr by (simp_all add: is_digit_facts)
  show "py_int ds = Some (dec_value ds)"
    using asc st dg assms(3) c cr by (simp add: py_int_def)
  have asc': "list_all is_ascii (CHR ''-'' # ds)" using asc by (simp add: is_ascii_def)
  have m: "\<not> py_isspace (CHR ''-'')" by (simp add: py_isspace_def)
  have "last (CHR ''-'' # ds) = last ds" using assms(2) by simp
  then have l: "\<not> py_isspace (last (CHR ''-'' # ds))"
    using la is_digit_facts(2) by metis
  have st': "py_strip (CHR ''-'' # ds) = CHR ''-'' # ds"
    by (rule py_strip_id) (use m l in simp_all)
  show "py_int (CHR ''-'' # ds) = Some (- dec_value ds)"
    using asc' st' dg assms(3) by (simp add: py_int_def)
qed

lemma stock_of_error': "stock_of tok = Inl e \<Longrightarrow> e = ValueError \<and> py_int tok = None"
  by (cases e) (auto simp: stock_of_def split: if_splits option.splits)

lemma to_ascii_nbsp: "to_ascii [CHR 0xC2, CHR 0xA0, CHR ''5''] = '' 5''"
  by (simp add: to_ascii.simps decode_one_def is_cont_def cont_bits_def unicode_space_def)

lemma to_ascii_deva:
  "to_ascii [CHR 0xE0, CHR 0xA5, CHR 0xA7, CHR 0xE0, CHR 0xA5, CHR 0xA8] = ''12''"
  by (simp add: to_ascii.simps decode_one_def is_cont_def cont_bits_def unicode_space_def
      unicode_decimal_def digit_blocks_def ascii_digit_def)

text \<open>
  C5: the count of a matched row follows three rules in order: the token \<open>>10\<close> gives 100,
  the token \<open>1\<close> gives 0, any other token goes through \<open>int()\<close> and its value is the count,
  an unparseable one raising the \<open>ValueError\<close> of \<open>int()\<close> (the spec's ValidationError), the
  only error there is. The parse is in base 10: a token of decimal digits gives the number
  its digits spell, and with a leading minus sign its negation. The first two rules compare
  strings: \<open>11\<close> gives 11, and \<open>01\<close> and \<open> 1\<close> give 1. As \<open>int()\<close> does, the parse rejects a
  token that starts with the control character 0x1F and accepts a no-break space and the
  decimal digits of other scripts. The last conjunct shows the rules at work in
  \<open>create_stocks\<close> on one matched row.
\<close>

theorem stock_of_rules:
  "stock_of ''>10'' = Inr 100 \<and> stock_of ''1'' = Inr 0 \<and>
   (tok \<noteq> ''>10'' \<and> tok \<noteq> ''1'' \<longrightarrow>
      stock_of tok = (case py_int tok of None \<Rightarrow> Inl ValueError | Some n \<Rightarrow> Inr n)) \<and>
   (stock_of tok = Inl e \<longrightarrow> e = ValueError \<and> py_int tok = None) \<and>
   (list_all is_digit ds \<and> ds \<noteq> [] \<and> ds \<noteq> ''1'' \<and> length ds \<le> int_max_str_digits \<longrightarrow>
      stock_of ds = Inr (dec_value ds) \<and> 0 \<le> dec_value ds) \<and>
   (list_all is_digit ds \<and> ds \<noteq> [] \<and> length ds \<le> int_max_str_digits \<longrightarrow>
      stock_of (CHR ''-'' # ds) = Inr (- dec_value ds)) \<and>
   dec_value [] = 0 \<and> dec_value (ds @ [d]) = 10 * dec_value ds + digit_val d \<and>
   map digit_val ''0123456789'' = [0, 1, 2, 3, 4, 5, 6, 7, 8, 9] \<and>
   stock_of ''7'' = Inr 7 \<and> stock_of ''abc'' = Inl ValueError \<and>
   stock_of ''11'' = Inr 11 \<and> stock_of ''01'' = Inr 1 \<and> stock_of '' 1'' = Inr 1 \<and>
   stock_of [CHR 0x1F, CHR ''7''] = Inl ValueError \<and>
   stock_of [CHR 0xC2, CHR 0xA0, CHR ''5''] = Inr 5 \<and>
   stock_of [CHR 0xE0, CHR 0xA5, CHR 0xA7, CHR 0xE0, CHR 0xA5, CHR 0xA8] = Inr 12 \<and>
   create_stocks [w] [Kod w] =
     (case stock_of (Kolichestvo w) of
        Inl e \<Rightarrow> (Inl e, [Kod w])
      | Inr n \<Rightarrow> (Inr [\<lparr>offer_id = Kod w, stock = n\<rparr>], []))"
proof -
  have a: "stock_of ''>10'' = Inr 100" "stock_of ''1'' = Inr 0"
    by (simp_all add: stock_of_def)
  have b: "tok \<noteq> ''>10'' \<and> tok \<noteq> ''1'' \<longrightarrow>
      stock_of tok = (case py_int tok of None \<Rightarrow> Inl ValueError | Some n \<Rightarrow> Inr n)"
    by (simp add: stock_of_def)
  have e: "stock_of tok = Inl e \<longrightarrow> e = ValueError \<and> py_int tok = None"
    using stock_of_error' by blast
  have g: "list_all is_digit ds \<and> ds \<noteq> [] \<and> ds \<noteq> ''1'' \<and> length ds \<le> int_max_str_digits \<longrightarrow>
      stock_of ds = Inr (dec_value ds) \<and> 0 \<le> dec_value ds"
  proof
    assume h: "list_all is_digit ds \<and> ds \<noteq> [] \<and> ds \<noteq> ''1'' \<and> length ds \<le> int_max_str_digits"
    then have "hd ds \<noteq> CHR ''>''" by (cases ds) (auto simp: is_digit_def)
    then have "ds \<noteq> ''>10''" by auto
    moreover have "py_int ds = Some (dec_value ds)" using h py_int_digits(1) by blast
    ultimately have "stock_of ds = Inr (dec_value ds)" using h by (simp add: stock_of_def)
    then show "stock_of ds = Inr (dec_value ds) \<and> 0 \<le> dec_value ds"
      using h dec_value_nonneg by blast
  qed
  have n: "list_all is_digit ds \<and> ds \<noteq> [] \<and> length ds \<le> int_max_str_digits \<longrightarrow>
      stock_of (CHR ''-'' # ds) = Inr (- dec_value ds)"
  proof
    assume h: "list_all is_digit ds \<and> ds \<noteq> [] \<and> length ds \<le> int_max_str_digits"
    then have "py_int (CHR ''-'' # ds) = Some (- dec_value ds)" using py_int_digits(2) by blast
    then show "stock_of (CHR ''-'' # ds) = Inr (- dec_value ds)" by (simp add: stock_of_def)
  qed
  have v: "dec_value [] = 0" "dec_value (ds @ [d]) = 10 * dec_value ds + digit_val d"
    by (simp_all add: dec_value_def)
  have t: "map digit_val ''0123456789'' = [0, 1, 2, 3, 4, 5, 6, 7, 8, 9]"
    by (simp add: digit_val_def)
  have c: "stock_of ''7'' = Inr 7" "stock_of ''abc'' = Inl ValueError"
    "stock_of ''11'' = Inr 11" "stock_of ''01'' = Inr 1" "stock_of '' 1'' = Inr 1"
    "stock_of [CHR 0x1F, CHR ''7''] = Inl ValueError"
    by code_simp+
  have u: "stock_of [CHR 0xC2, CHR 0xA0, CHR ''5''] = Inr 5"
    "stock_of [CHR 0xE0, CHR 0xA5, CHR 0xA7, CHR 0xE0, CHR 0xA5, CHR 0xA8] = Inr 12"
    by (simp_all add: stock_of_def py_int_def is_ascii_def to_ascii_nbsp to_ascii_deva
        py_strip_def py_isspace_def is_digit_def int_max_str_digits_def dec_value_def
        digit_val_def)
  have d: "create_stocks [w] [Kod w] =
     (case stock_of (Kolichestvo w) of
        Inl e \<Rightarrow> (Inl e, [Kod w])
      | Inr n \<Rightarrow> (Inr [\<lparr>offer_id = Kod w, stock = n\<rparr>], []))"
    by (simp add: create_stocks_def split: sum.splits)
  show ?thesis by (intro conjI a b e g n v t c u d)
qed

theorem stock_of_rules_witness:
  "''42'' \<noteq> ''>10'' \<and> ''42'' \<noteq> ''1'' \<and> py_int ''42'' = Some 42 \<and> stock_of ''42'' = Inr 42 \<and>
   list_all is_digit ''42'' \<and> length ''42'' \<le> int_max_str_digits \<and> dec_value ''42'' = 42 \<and>
   stock_of ''-42'' = Inr (- 42)"
proof -
  have p: "py_int ''42'' = Some 42" by code_simp
  have n: "''42'' \<noteq> ''>10'' \<and> ''42'' \<noteq> ''1''" by simp
  have l: "list_all is_digit ''42''" "length ''42'' \<le> int_max_str_digits" "dec_value ''42'' = 42"
    by code_simp+
  have m: "''42'' \<noteq> []" by simp
  from stock_of_rules [of "''42''" _ "''42''"] n p l m show ?thesis by simp
qed

section \<open>The sync sequence\<close>

text \<open>
  C1: on the end-to-end scenario of the spec (one feed row with sku 123, enumerated ids 123
  and 456), the sequence of \<open>seller.main\<close> emits no price update at all, although 123 is
  matched: \<open>create_stocks\<close> has removed 123 from the list \<open>create_prices\<close> then reads. The
  path of \<open>upload_stocks\<close> and \<open>upload_prices\<close>, which enumerates again, emits the price
  update of 123.
\<close>

theorem main_reconcile_drops_prices:
  "main_reconcile
     [\<lparr>Kod = ''123'', Nazvanie = ''A'', Kolichestvo = ''>10'',
       Cena = ''1'000.00 '' @ [CHR 0xD1, CHR 0x80, CHR 0xD1, CHR 0x83, CHR 0xD0, CHR 0xB1] @ ''.''\<rparr>]
     [''123'', ''456''] =
     Inr ([\<lparr>offer_id = ''123'', stock = 100\<rparr>, \<lparr>offer_id = ''456'', stock = 0\<rparr>], []) \<and>
   upload_reconcile
     [\<lparr>Kod = ''123'', Nazvanie = ''A'', Kolichestvo = ''>10'',
       Cena = ''1'000.00 '' @ [CHR 0xD1, CHR 0x80, CHR 0xD1, CHR 0x83, CHR 0xD0, CHR 0xB1] @ ''.''\<rparr>]
     [''123'', ''456''] =
     Inr ([\<lparr>offer_id = ''123'', stock = 100\<rparr>, \<lparr>offer_id = ''456'', stock = 0\<rparr>],
          [\<lparr>auto_action_enabled = ''UNKNOWN'', currency_code = ''RUB'', price_offer_id = ''123'',
            old_price = ''0'', price = ''1000''\<rparr>])"
  by code_simp

section \<open>A price that fails to normalise\<close>

lemma market_prices_loop_fail:
  "market_prices_loop ws acc ids = Inl e \<longleftrightarrow>
   e = ValueError \<and> (\<exists>w\<in>set ws. Kod w \<in> set ids \<and> py_int (price_conversion (Cena w)) = None)"
  by (induction ws arbitrary: acc) (auto split: option.splits)

lemma market_prices_loop_ids:
  "market_prices_loop ws acc ids = Inr ps \<Longrightarrow>
   \<exists>qs. ps = acc @ qs \<and>
     list_all2 (\<lambda>q w. price_id q = Kod w \<and> py_int (price_conversion (Cena w)) = Some (price_value q)
                  \<and> currencyId q = ''RUR'')
       qs (filter (\<lambda>w. Kod w \<in> set ids) ws)"
proof (induction ws arbitrary: acc)
  case Nil
  then show ?case by simp
next
  case (Cons w ws)
  show ?case
  proof (cases "Kod w \<in> set ids")
    case False
    then show ?thesis using Cons by simp
  next
    case True
    then obtain v where v: "py_int (price_conversion (Cena w)) = Some v"
      and r: "market_prices_loop ws (acc @ [\<lparr>price_id = Kod w, price_value = v, currencyId = ''RUR''\<rparr>]) ids = Inr ps"
      using Cons.prems by (auto split: option.splits)
    from Cons.IH [OF r] obtain qs where
      qs: "ps = (acc @ [\<lparr>price_id = Kod w, price_value = v, currencyId = ''RUR''\<rparr>]) @ qs"
          "list_all2 (\<lambda>q w. price_id q = Kod w \<and> py_int (price_conversion (Cena w)) = Some (price_value q)
                  \<and> currencyId q = ''RUR'')
       qs (filter (\<lambda>w. Kod w \<in> set ids) ws)" by blast
    let ?q = "\<lparr>price_id = Kod w, price_value = v, currencyId = ''RUR''\<rparr>"
    have "ps = acc @ (?q # qs)" using qs(1) by simp
    moreover have "list_all2 (\<lambda>q w. price_id q = Kod w \<and> py_int (price_conversion (Cena w)) = Some (price_value q)
                  \<and> currencyId q = ''RUR'')
       (?q # qs) (filter (\<lambda>w. Kod w \<in> set ids) (w # ws))"
      using qs(2) v True by simp
    ultimately show ?thesis by blast
  qed
qed

lemma stocks_loop_price_free:
  "stocks_loop (map (\<lambda>w. w\<lparr>Cena := f w\<rparr>) ws) acc ids = stocks_loop ws acc ids"
  by (induction ws arbitrary: acc ids) (simp_all split: sum.splits)

lemma py_int_empty: "py_int [] = None"
  by (simp add: py_int_def py_strip_def)

text \<open>
  C2 (as amended): a matched row whose price normalises to a string \<open>int()\<close> rejects (the
  empty string, for one) is not skipped. In market.py the \<open>ValueError\<close> of \<open>int()\<close> leaves
  \<open>create_prices\<close>: the function fails exactly when some matched row has such a price, and
  then no price update is built for any row; when it returns, it has one update per matched
  row, in feed order. In seller.py the price stays a string and every matched row gets its
  update, an empty price included. The stock updates are built by another function, which
  never reads the price column: changing the prices of the feed changes nothing in the
  outcome of \<open>create_stocks\<close>.
\<close>

theorem create_prices_bad_price:
  "(market_create_prices ws ids = Inl ValueError \<longleftrightarrow>
      (\<exists>w\<in>set ws. Kod w \<in> set ids \<and> py_int (price_conversion (Cena w)) = None)) \<and>
   ((\<exists>w\<in>set ws. Kod w \<in> set ids \<and> price_conversion (Cena w) = []) \<longrightarrow>
      market_create_prices ws ids = Inl ValueError) \<and>
   (\<forall>ps. market_create_prices ws ids = Inr ps \<longrightarrow>
      list_all2 (\<lambda>q w. price_id q = Kod w \<and>
                   py_int (price_conversion (Cena w)) = Some (price_value q))
        ps (filter (\<lambda>w. Kod w \<in> set ids) ws)) \<and>
   create_prices ws ids =
     map (\<lambda>w. \<lparr>auto_action_enabled = ''UNKNOWN'', currency_code = ''RUB'',
               price_offer_id = Kod w, old_price = ''0'',
               price = price_conversion (Cena w)\<rparr>)
       (filter (\<lambda>w. Kod w \<in> set ids) ws) \<and>
   create_stocks (map (\<lambda>w. w\<lparr>Cena := f w\<rparr>) ws) ids = create_stocks ws ids \<and>
   market_create_stocks d (map (\<lambda>w. w\<lparr>Cena := f w\<rparr>) ws) ids wh = market_create_stocks d ws ids wh"
proof -
  have a: "market_create_prices ws ids = Inl ValueError \<longleftrightarrow>
      (\<exists>w\<in>set ws. Kod w \<in> set ids \<and> py_int (price_conversion (Cena w)) = None)"
    by (simp add: market_create_prices_def market_prices_loop_fail)
  have b: "(\<exists>w\<in>set ws. Kod w \<in> set ids \<and> price_conversion (Cena w) = []) \<longrightarrow>
      market_create_prices ws ids = Inl ValueError"
    unfolding a using py_int_empty by auto
  have c: "\<forall>ps. market_create_prices ws ids = Inr ps \<longrightarrow>
      list_all2 (\<lambda>q w. price_id q = Kod w \<and>
                   py_int (price_conversion (Cena w)) = Some (price_value q))
        ps (filter (\<lambda>w. Kod w \<in> set ids) ws)"
  proof (intro allI impI)
    fix ps assume "market_create_prices ws ids = Inr ps"
    then have "market_prices_loop ws [] ids = Inr ps" by (simp add: market_create_prices_def)
    from market_prices_loop_ids [OF this] have
      "list_all2 (\<lambda>q w. price_id q = Kod w \<and> py_int (price_conversion (Cena w)) = Some (price_value q)
                  \<and> currencyId q = ''RUR'') ps (filter (\<lambda>w. Kod w \<in> set ids) ws)" by simp
    then show "list_all2 (\<lambda>q w. price_id q = Kod w \<and>
                   py_int (price_conversion (Cena w)) = Some (price_value q))
        ps (filter (\<lambda>w. Kod w \<in> set ids) ws)"
      by (rule list_all2_mono) simp
  qed
  have e: "create_stocks (map (\<lambda>w. w\<lparr>Cena := f w\<rparr>) ws) ids = create_stocks ws ids"
    by (simp add: create_stocks_def stocks_loop_price_free)
  have g: "market_create_stocks d (map (\<lambda>w. w\<lparr>Cena := f w\<rparr>) ws) ids wh = market_create_stocks d ws ids wh"
    by (simp add: market_create_stocks_sim e)
  from a b c create_prices_eq [of ws ids] e g show ?thesis by blast
qed

theorem create_prices_bad_price_witness:
  "(\<exists>w\<in>set [\<lparr>Kod = ''123'', Nazvanie = ''A'', Kolichestvo = ''5'', Cena = ''''\<rparr>,
              \<lparr>Kod = ''456'', Nazvanie = ''B'', Kolichestvo = ''7'', Cena = ''100.00''\<rparr>].
      Kod w \<in> set [''123'', ''456''] \<and> price_conversion (Cena w) = []) \<and>
   market_create_prices
     [\<lparr>Kod = ''123'', Nazvanie = ''A'', Kolichestvo = ''5'', Cena = ''''\<rparr>,
      \<lparr>Kod = ''456'', Nazvanie = ''B'', Kolichestvo = ''7'', Cena = ''100.00''\<rparr>]
     [''123'', ''456''] = Inl ValueError"
proof -
  have p: "price_conversion '''' = []" by code_simp
  have h: "\<exists>w\<in>set [\<lparr>Kod = ''123'', Nazvanie = ''A'', Kolichestvo = ''5'', Cena = ''''\<rparr>,
              \<lparr>Kod = ''456'', Nazvanie = ''B'', Kolichestvo = ''7'', Cena = ''100.00''\<rparr>].
      Kod w \<in> set [''123'', ''456''] \<and> price_conversion (Cena w) = []"
    using p by simp
  from create_prices_bad_price [of
     "[\<lparr>Kod = ''123'', Nazvanie = ''A'', Kolichestvo = ''5'', Cena = ''''\<rparr>,
       \<lparr>Kod = ''456'', Nazvanie = ''B'', Kolichestvo = ''7'', Cena = ''100.00''\<rparr>]"
     "[''123'', ''456'']"] h
  show ?thesis by blast
qed

theorem create_prices_bad_price_counterexample:
  "market_create_prices
     [\<lparr>Kod = ''123'', Nazvanie = ''A'', Kolichestvo = ''5'', Cena = ''''\<rparr>,
      \<lparr>Kod = ''456'', Nazvanie = ''B'', Kolichestvo = ''7'', Cena = ''100.00''\<rparr>]
     [''123'', ''456''] = Inl ValueError \<and>
   create_prices
     [\<lparr>Kod = ''123'', Nazvanie = ''A'', Kolichestvo = ''5'', Cena = ''''\<rparr>]
     [''123''] =
     [\<lparr>auto_action_enabled = ''UNKNOWN'', currency_code = ''RUB'', price_offer_id = ''123'',
       old_price = ''0'', price = ''''\<rparr>]"
  by code_simp

section \<open>divide\<close>

lemma py_range_step:
  "0 < step \<Longrightarrow> i < stop \<Longrightarrow> py_range i stop step = i # py_range (i + step) stop step"
  by (subst py_range.simps) simp

lemma py_range_stop: "\<not> i < stop \<Longrightarrow> py_range i stop step = []"
  by (subst py_range.simps) simp

lemma py_range_length:
  "0 < step \<Longrightarrow> length (py_range i stop step) = (stop - i + step - 1) div step"
proof (induction i stop step rule: py_range.induct)
  case (1 i stop step)
  show ?case
  proof (cases "i < stop")
    case False
    then have "stop - i + step - 1 < step" using "1.prems" by simp
    then have "(stop - i + step - 1) div step = 0" by (rule div_less)
    moreover have "py_range i stop step = []" using False by (rule py_range_stop)
    ultimately show ?thesis by simp
  next
    case True
    define x where "x = stop - (i + step) + step - 1"
    define y where "y = stop - i + step - 1"
    have ih: "length (py_range (i + step) stop step) = x div step"
      using "1.IH" "1.prems" True by (simp add: x_def)
    have r: "py_range i stop step = i # py_range (i + step) stop step"
      using "1.prems" True by (rule py_range_step)
    have "y div step = Suc (x div step)"
    proof (cases "i + step \<le> stop")
      case True
      then have "y = x + step" using "1.prems" by (simp add: x_def y_def)
      then show ?thesis using div_add_self2 [of step x] "1.prems" by simp
    next
      case False
      then have a: "step * 1 \<le> y" "y < step * Suc 1" and b: "x < step"
        using True "1.prems" by (simp_all add: x_def y_def)
      from a have "y div step = 1" by (rule div_nat_eqI)
      moreover from b have "x div step = 0" by (rule div_less)
      ultimately show ?thesis by simp
    qed
    then show ?thesis using r ih by (simp add: y_def)
  qed
qed

lemma py_range_concat:
  "0 < n \<Longrightarrow>
   concat (map (\<lambda>j. slice lst j (j + n)) (py_range i (length lst) n)) = drop i lst"
proof (induction i "length lst" n rule: py_range.induct)
  case (1 i step)
  show ?case
  proof (cases "i < length lst")
    case False
    then show ?thesis by (simp add: py_range_stop)
  next
    case True
    have ih: "concat (map (\<lambda>j. slice lst j (j + step)) (py_range (i + step) (length lst) step)) =
        drop (i + step) lst"
      using "1.hyps" "1.prems" True by simp
    have "take step (drop i lst) @ drop (i + step) lst = drop i lst"
      by (metis append_take_drop_id drop_drop add.commute)
    then show ?thesis using ih
      by (simp add: py_range_step [OF "1.prems" True] slice_def)
  qed
qed

lemma py_range_chunks:
  "0 < n \<Longrightarrow>
   (\<forall>c\<in>set (butlast (map (\<lambda>j. slice lst j (j + n)) (py_range i (length lst) n))). length c = n) \<and>
   (map (\<lambda>j. slice lst j (j + n)) (py_range i (length lst) n) \<noteq> [] \<longrightarrow>
      0 < length (last (map (\<lambda>j. slice lst j (j + n)) (py_range i (length lst) n))) \<and>
      length (last (map (\<lambda>j. slice lst j (j + n)) (py_range i (length lst) n))) \<le> n)"
proof (induction i "length lst" n rule: py_range.induct)
  case (1 i step)
  let ?cs = "map (\<lambda>j. slice lst j (j + step)) (py_range i (length lst) step)"
  let ?rest = "map (\<lambda>j. slice lst j (j + step)) (py_range (i + step) (length lst) step)"
  show ?case
  proof (cases "i < length lst")
    case False
    then have "?cs = []" by (simp add: py_range_stop)
    then show ?thesis by simp
  next
    case True
    have cs: "?cs = slice lst i (i + step) # ?rest"
      by (simp add: py_range_step [OF "1.prems" True])
    have ih: "(\<forall>c\<in>set (butlast ?rest). length c = step) \<and>
       (?rest \<noteq> [] \<longrightarrow> 0 < length (last ?rest) \<and> length (last ?rest) \<le> step)"
      using "1.hyps" "1.prems" True by simp
    have len: "length (slice lst i (i + step)) = min step (length lst - i)"
      by (simp add: slice_def)
    show ?thesis
    proof (cases "i + step < length lst")
      case False
      then have "?rest = []" by (simp add: py_range_stop)
      then have "?cs = [slice lst i (i + step)]" using cs by simp
      moreover have "0 < length (slice lst i (i + step)) \<and> length (slice lst i (i + step)) \<le> step"
        using len True "1.prems" by simp
      ultimately show ?thesis by simp
    next
      case T: True
      then have ne: "?rest \<noteq> []" by (simp add: py_range_step [OF "1.prems" T])
      have "length (slice lst i (i + step)) = step" using len T by simp
      then show ?thesis unfolding cs using ih ne by simp
    qed
  qed
qed

lemma submit_all_Nil: "submit_all submit [] [] = (Inr (), [])"
  by simp

text \<open>
  C8: for a positive batch size \<open>n\<close>, \<open>list(divide(lst, n))\<close> is a list of
  \<open>ceil(len(lst) / n)\<close> chunks whose concatenation, in order, is \<open>lst\<close>; every chunk but
  the last has exactly \<open>n\<close> elements and the last has between 1 and \<open>n\<close>. For the empty
  list there is no chunk, and the dispatch loop calls the remote update zero times.
\<close>

theorem divide_chunks:
  assumes "0 < n"
  shows "\<exists>chunks. divide lst n = Inr chunks \<and> concat chunks = lst \<and>
           length chunks = (length lst + nat n - 1) div nat n \<and>
           (\<forall>c\<in>set (butlast chunks). length c = nat n) \<and>
           (chunks \<noteq> [] \<longrightarrow> 0 < length (last chunks) \<and> length (last chunks) \<le> nat n) \<and>
           divide ([] :: 'a list) n = Inr [] \<and>
           dispatch ([] :: 'a list) n submit = (Inr (), [])"
proof -
  let ?cs = "map (\<lambda>i. slice lst i (i + nat n)) (py_range 0 (length lst) (nat n))"
  have n: "0 < nat n" using assms by simp
  have d: "divide lst n = Inr ?cs" using assms by (simp add: divide_def)
  have c: "concat ?cs = lst" using py_range_concat [OF n, of lst 0] by simp
  have l: "length ?cs = (length lst + nat n - 1) div nat n"
    using py_range_length [OF n, of 0 "length lst"] by simp
  have b: "(\<forall>c\<in>set (butlast ?cs). length c = nat n) \<and>
           (?cs \<noteq> [] \<longrightarrow> 0 < length (last ?cs) \<and> length (last ?cs) \<le> nat n)"
    using py_range_chunks [OF n, of lst 0] .
  have e: "divide ([] :: 'a list) n = Inr []" using assms by (simp add: divide_def py_range_stop)
  have s: "dispatch ([] :: 'a list) n submit = (Inr (), [])"
    by (simp add: dispatch_def e)
  from d c l b e s show ?thesis by blast
qed

theorem divide_chunks_witness:
  "(0 :: int) < 2 \<and>
   (\<exists>chunks. divide [1, 2, 3, 4, 5 :: nat] 2 = Inr chunks \<and> concat chunks = [1, 2, 3, 4, 5] \<and>
      length chunks = (length [1, 2, 3, 4, 5 :: nat] + nat 2 - 1) div nat 2 \<and>
      (\<forall>c\<in>set (butlast chunks). length c = nat 2) \<and>
      (chunks \<noteq> [] \<longrightarrow> 0 < length (last chunks) \<and> length (last chunks) \<le> nat 2)) \<and>
   divide [1, 2, 3, 4, 5 :: nat] 2 = Inr [[1, 2], [3, 4], [5]]"
proof -
  have h: "(0 :: int) < 2" by simp
  have e: "divide [1, 2, 3, 4, 5 :: nat] 2 = Inr [[1, 2], [3, 4], [5]]" by code_simp
  from divide_chunks [OF h, of "[1, 2, 3, 4, 5 :: nat]"] h e show ?thesis by blast
qed

section \<open>Catalog enumeration\<close>

lemma offer_ids_loop_paged:
  "paged_total get lid delivered remaining \<Longrightarrow>
   offer_ids_loop get lid delivered = Some (Inr (delivered @ remaining))"
proof (induction rule: paged_total.induct)
  case (last_page get lid p remaining delivered)
  then show ?case by (subst offer_ids_loop.simps) simp
next
  case (next_page get lid p remaining rest delivered)
  have "total p \<noteq> int (length (delivered @ page_items p))"
    using next_page.hyps by simp
  then show ?case using next_page
    by (subst offer_ids_loop.simps) simp
qed

lemma market_ids_loop_paged:
  "paged_token get page remaining \<Longrightarrow>
   market_ids_loop get page acc = Some (Inr (acc @ remaining))"
proof (induction arbitrary: acc rule: paged_token.induct)
  case (last_token get page p remaining)
  then show ?case by (subst market_ids_loop.simps) auto
next
  case (next_token get page p remaining rest t)
  then show ?case by (subst market_ids_loop.simps) simp
qed

text \<open>
  C9: against a remote catalog that follows the pagination protocol, \<open>get_offer_ids\<close>
  terminates and returns the offer ids of the whole finite catalog, in both variants. Each
  loop goes on exactly until its stop condition holds: in seller.py until the number of
  accumulated items equals the reported total, in market.py until the next page token is
  absent or empty.
\<close>

theorem get_offer_ids_terminates:
  "(paged_total get [] [] catalog \<longrightarrow>
      get_offer_ids get = Some (Inr (map product_offer_id catalog))) \<and>
   (paged_token mget [] mcatalog \<longrightarrow>
      market_get_offer_ids mget = Some (Inr (map shopSku mcatalog))) \<and>
   (get lid = Inr p \<longrightarrow>
      offer_ids_loop get lid acc =
        (if total p = int (length (acc @ page_items p)) then Some (Inr (acc @ page_items p))
         else offer_ids_loop get (last_id p) (acc @ page_items p))) \<and>
   (mget page = Inr mp \<longrightarrow>
      market_ids_loop mget page macc =
        (case nextPageToken mp of
           None \<Rightarrow> Some (Inr (macc @ offerMappingEntries mp))
         | Some t \<Rightarrow> if t = [] then Some (Inr (macc @ offerMappingEntries mp))
                     else market_ids_loop mget t (macc @ offerMappingEntries mp)))"
proof -
  have a: "paged_total get [] [] catalog \<longrightarrow>
      get_offer_ids get = Some (Inr (map product_offer_id catalog))"
    using offer_ids_loop_paged [of get "[]" "[]" catalog] by (simp add: get_offer_ids_def)
  have b: "paged_token mget [] mcatalog \<longrightarrow>
      market_get_offer_ids mget = Some (Inr (map shopSku mcatalog))"
    using market_ids_loop_paged [of mget "[]" mcatalog "[]"] by (simp add: market_get_offer_ids_def)
  have c: "get lid = Inr p \<longrightarrow>
      offer_ids_loop get lid acc =
        (if total p = int (length (acc @ page_items p)) then Some (Inr (acc @ page_items p))
         else offer_ids_loop get (last_id p) (acc @ page_items p))"
    by (subst offer_ids_loop.simps) simp
  have d: "mget page = Inr mp \<longrightarrow>
      market_ids_loop mget page macc =
        (case nextPageToken mp of
           None \<Rightarrow> Some (Inr (macc @ offerMappingEntries mp))
         | Some t \<Rightarrow> if t = [] then Some (Inr (macc @ offerMappingEntries mp))
                     else market_ids_loop mget t (macc @ offerMappingEntries mp))"
    by (subst market_ids_loop.simps) simp
  from a b c d show ?thesis by blast
qed

theorem get_offer_ids_terminates_witness:
  "paged_total
     (\<lambda>lid. if lid = [] then Inr \<lparr>page_items = [\<lparr>product_offer_id = ''a''\<rparr>], total = 2, last_id = ''a''\<rparr>
             else Inr \<lparr>page_items = [\<lparr>product_offer_id = ''b''\<rparr>], total = 2, last_id = ''b''\<rparr>)
     [] [] [\<lparr>product_offer_id = ''a''\<rparr>, \<lparr>product_offer_id = ''b''\<rparr>] \<and>
   get_offer_ids
     (\<lambda>lid. if lid = [] then Inr \<lparr>page_items = [\<lparr>product_offer_id = ''a''\<rparr>], total = 2, last_id = ''a''\<rparr>
             else Inr \<lparr>page_items = [\<lparr>product_offer_id = ''b''\<rparr>], total = 2, last_id = ''b''\<rparr>)
     = Some (Inr [''a'', ''b'']) \<and>
   paged_token
     (\<lambda>page. if page = [] then Inr \<lparr>offerMappingEntries = [\<lparr>shopSku = ''a''\<rparr>], nextPageToken = Some ''t1''\<rparr>
              else Inr \<lparr>offerMappingEntries = [\<lparr>shopSku = ''b''\<rparr>], nextPageToken = None\<rparr>)
     [] [\<lparr>shopSku = ''a''\<rparr>, \<lparr>shopSku = ''b''\<rparr>] \<and>
   market_get_offer_ids
     (\<lambda>page. if page = [] then Inr \<lparr>offerMappingEntries = [\<lparr>shopSku = ''a''\<rparr>], nextPageToken = Some ''t1''\<rparr>
              else Inr \<lparr>offerMappingEntries = [\<lparr>shopSku = ''b''\<rparr>], nextPageToken = None\<rparr>)
     = Some (Inr [''a'', ''b''])"
proof -
  let ?get = "\<lambda>lid. if lid = [] then Inr \<lparr>page_items = [\<lparr>product_offer_id = ''a''\<rparr>], total = 2, last_id = ''a''\<rparr>
             else Inr \<lparr>page_items = [\<lparr>product_offer_id = ''b''\<rparr>], total = 2, last_id = ''b''\<rparr>"
  let ?mget = "\<lambda>page. if page = [] then Inr \<lparr>offerMappingEntries = [\<lparr>shopSku = ''a''\<rparr>], nextPageToken = Some ''t1''\<rparr>
              else Inr \<lparr>offerMappingEntries = [\<lparr>shopSku = ''b''\<rparr>], nextPageToken = None\<rparr>"
  have l: "paged_total ?get ''a'' [\<lparr>product_offer_id = ''a''\<rparr>] [\<lparr>product_offer_id = ''b''\<rparr>]"
    by (rule last_page [where p = "\<lparr>page_items = [\<lparr>product_offer_id = ''b''\<rparr>], total = 2, last_id = ''b''\<rparr>"]) simp_all
  have h: "paged_total ?get [] [] [\<lparr>product_offer_id = ''a''\<rparr>, \<lparr>product_offer_id = ''b''\<rparr>]"
    by (rule next_page [where p = "\<lparr>page_items = [\<lparr>product_offer_id = ''a''\<rparr>], total = 2, last_id = ''a''\<rparr>"
          and rest = "[\<lparr>product_offer_id = ''b''\<rparr>]"]) (simp_all add: l)
  have ml: "paged_token ?mget ''t1'' [\<lparr>shopSku = ''b''\<rparr>]"
    by (rule last_token [where p = "\<lparr>offerMappingEntries = [\<lparr>shopSku = ''b''\<rparr>], nextPageToken = None\<rparr>"]) simp_all
  have mh: "paged_token ?mget [] [\<lparr>shopSku = ''a''\<rparr>, \<lparr>shopSku = ''b''\<rparr>]"
    by (rule next_token [where p = "\<lparr>offerMappingEntries = [\<lparr>shopSku = ''a''\<rparr>], nextPageToken = Some ''t1''\<rparr>"
          and rest = "[\<lparr>shopSku = ''b''\<rparr>]" and t = "''t1''"]) (simp_all add: ml)
  from get_offer_ids_terminates [of ?get "[\<lparr>product_offer_id = ''a''\<rparr>, \<lparr>product_offer_id = ''b''\<rparr>]"
         ?mget "[\<lparr>shopSku = ''a''\<rparr>, \<lparr>shopSku = ''b''\<rparr>]"] h mh
  show ?thesis by simp
qed

end
